theory Spec2Isabelle
  imports Complex_Main "HOL-Library.Multiset"
begin

section \<open>Float values\<close>

text \<open>
  The C++ types \<^verbatim>\<open>float\<close> and \<^verbatim>\<open>double\<close> are modelled by one type: a real number or
  one of the three non-finite IEEE values. Rounding, overflow and signed zeros are not
  modelled: an operation on finite operands gives the exact real result, and a division
  of a non-zero number by zero gives the infinity of the sign of the dividend.
  Comparisons are the IEEE ones: every comparison with \<open>NaN\<close> is false.
\<close>

datatype fl = Fin real | PInf | NInf | NaN

fun flt :: "fl \<Rightarrow> fl \<Rightarrow> bool" where
  "flt (Fin a) (Fin b) = (a < b)"
| "flt (Fin a) PInf = True"
| "flt NInf (Fin b) = True"
| "flt NInf PInf = True"
| "flt _ _ = False"

definition fgt :: "fl \<Rightarrow> fl \<Rightarrow> bool" where
  "fgt a b = flt b a"

fun fle :: "fl \<Rightarrow> fl \<Rightarrow> bool" where
  "fle (Fin a) (Fin b) = (a \<le> b)"
| "fle NaN _ = False"
| "fle _ NaN = False"
| "fle NInf _ = True"
| "fle _ PInf = True"
| "fle _ _ = False"

fun fmul :: "fl \<Rightarrow> fl \<Rightarrow> fl" where
  "fmul (Fin a) (Fin b) = Fin (a * b)"
| "fmul NaN _ = NaN"
| "fmul _ NaN = NaN"
| "fmul (Fin a) PInf = (if a = 0 then NaN else if 0 < a then PInf else NInf)"
| "fmul (Fin a) NInf = (if a = 0 then NaN else if 0 < a then NInf else PInf)"
| "fmul PInf (Fin b) = (if b = 0 then NaN else if 0 < b then PInf else NInf)"
| "fmul NInf (Fin b) = (if b = 0 then NaN else if 0 < b then NInf else PInf)"
| "fmul PInf PInf = PInf"
| "fmul PInf NInf = NInf"
| "fmul NInf PInf = NInf"
| "fmul NInf NInf = PInf"

fun fdiv :: "fl \<Rightarrow> fl \<Rightarrow> fl" where
  "fdiv (Fin a) (Fin b) =
     (if b \<noteq> 0 then Fin (a / b)
      else if a = 0 then NaN else if 0 < a then PInf else NInf)"
| "fdiv NaN _ = NaN"
| "fdiv _ NaN = NaN"
| "fdiv (Fin a) _ = Fin 0"
| "fdiv PInf (Fin b) = (if 0 \<le> b then PInf else NInf)"
| "fdiv NInf (Fin b) = (if 0 \<le> b then NInf else PInf)"
| "fdiv _ _ = NaN"

fun fsub :: "fl \<Rightarrow> fl \<Rightarrow> fl" where
  "fsub (Fin a) (Fin b) = Fin (a - b)"
| "fsub NaN _ = NaN"
| "fsub _ NaN = NaN"
| "fsub (Fin a) PInf = NInf"
| "fsub (Fin a) NInf = PInf"
| "fsub PInf PInf = NaN"
| "fsub NInf NInf = NaN"
| "fsub PInf _ = PInf"
| "fsub NInf _ = NInf"

text \<open>\<^verbatim>\<open>std::max(a, b)\<close> is \<^verbatim>\<open>(a < b) ? b : a\<close> and \<^verbatim>\<open>std::min(a, b)\<close> is
  \<^verbatim>\<open>(b < a) ? b : a\<close>.\<close>

definition std_max :: "fl \<Rightarrow> fl \<Rightarrow> fl" where
  "std_max a b = (if flt a b then b else a)"

definition std_min :: "fl \<Rightarrow> fl \<Rightarrow> fl" where
  "std_min a b = (if flt b a then b else a)"

section \<open>Geometry and annotations\<close>

text \<open>\<^verbatim>\<open>cv::RotatedRect\<close> (centre, size, angle), flattened to its five float fields,
  and \<^verbatim>\<open>cv::Rect\<close> with its four \<^verbatim>\<open>int\<close> fields.\<close>

record RotatedRect =
  center_x :: fl
  center_y :: fl
  size_width :: fl
  size_height :: fl
  angle :: fl

record Rect =
  rect_x :: int
  rect_y :: int
  rect_width :: int
  rect_height :: int

record Annot =
  rect :: RotatedRect
  scale :: fl
  label_text :: string

text \<open>\<^verbatim>\<open>cv::Size_::area()\<close> is \<^verbatim>\<open>width * height\<close>.\<close>

definition area :: "RotatedRect \<Rightarrow> fl" where
  "area r = fmul (size_width r) (size_height r)"

definition sizePixels :: "Annot \<Rightarrow> bool \<Rightarrow> fl" where
  "sizePixels a scaled =
     (let sz = area (rect a)
      in if \<not> scaled then fdiv sz (scale a) else sz)"

definition sizeCm2 :: "Annot \<Rightarrow> bool \<Rightarrow> fl" where
  "sizeCm2 a scaled =
     (let sz = fmul (fdiv (size_width (rect a)) (Fin 87.4))
                    (fdiv (size_height (rect a)) (Fin 87.4))
      in if \<not> scaled then fdiv sz (scale a) else sz)"

definition aspect :: "Annot \<Rightarrow> fl" where
  "aspect a =
     fdiv (std_max (size_width (rect a)) (size_height (rect a)))
          (std_min (size_width (rect a)) (size_height (rect a)))"

section \<open>Library functions\<close>

text \<open>The exceptions of the source (each with its message) and of the standard library.
  \<open>stof_exception\<close> is whatever \<^verbatim>\<open>std::stof\<close> throws (\<^verbatim>\<open>std::invalid_argument\<close> or
  \<^verbatim>\<open>std::out_of_range\<close>; the five calls in one expression are not ordered, so the two
  are not told apart). \<open>undefined_behaviour\<close> is not an exception: it marks an execution for which the C++
  standard defines no behaviour at all (here: reading a vector out of its bounds).\<close>

datatype error =
    invalid_argument string
  | runtime_error string
  | out_of_range string
  | stof_exception
  | undefined_behaviour

text \<open>\<^verbatim>\<open>std::stoi(s)\<close> (base 10, as \<^verbatim>\<open>strtol\<close>): skips leading white space, reads an optional
  sign and the longest run of decimal digits, and ignores whatever follows. It throws
  \<^verbatim>\<open>std::invalid_argument\<close> when there is no digit and \<^verbatim>\<open>std::out_of_range\<close> when the
  value is not an \<^verbatim>\<open>int\<close> (32 bits).\<close>

definition isspace :: "char \<Rightarrow> bool" where
  "isspace c \<longleftrightarrow> c \<in> set [CHR '' '', CHR 0x09, CHR 0x0A, CHR 0x0B, CHR 0x0C, CHR 0x0D]"

definition isdigit :: "char \<Rightarrow> bool" where
  "isdigit c \<longleftrightarrow> c \<in> set ''0123456789''"

definition digit_value :: "char \<Rightarrow> nat" where
  "digit_value c = of_char c - 48"

definition digits_value :: "string \<Rightarrow> nat" where
  "digits_value ds = foldl (\<lambda>acc c. 10 * acc + digit_value c) 0 ds"

definition stoi :: "string \<Rightarrow> error + int" where
  "stoi s =
     (let s1 = dropWhile isspace s;
          neg = (s1 \<noteq> [] \<and> hd s1 = CHR ''-'');
          s2 = (if s1 \<noteq> [] \<and> (hd s1 = CHR ''-'' \<or> hd s1 = CHR ''+'') then tl s1 else s1);
          ds = takeWhile isdigit s2
      in if ds = [] then Inl (invalid_argument ''stoi'')
         else let v = (if neg then - int (digits_value ds) else int (digits_value ds))
              in if v < - 2147483648 \<or> 2147483647 < v then Inl (out_of_range ''stoi'')
                 else Inr v)"

text \<open>\<^verbatim>\<open>ss << rec\<close>: the decimal text of an \<^verbatim>\<open>int\<close>.\<close>

fun show_nat :: "nat \<Rightarrow> string" where
  "show_nat n =
     (if n < 10 then [''0123456789'' ! n]
      else show_nat (n div 10) @ [''0123456789'' ! (n mod 10)])"

declare show_nat.simps [simp del]

definition show_int :: "int \<Rightarrow> string" where
  "show_int i = (if i < 0 then CHR ''-'' # show_nat (nat (- i)) else show_nat (nat i))"

text \<open>\<^verbatim>\<open>boost::split(split, line, boost::is_any_of(" "))\<close> with the default
  \<^verbatim>\<open>token_compress_off\<close>: the line is cut at every space, so two adjacent spaces, or
  a space at either end, give an empty token; an empty line gives one empty token.\<close>

fun boost_split :: "string \<Rightarrow> string list" where
  "boost_split [] = [[]]"
| "boost_split (c # cs) =
     (if c = CHR '' '' then [] # boost_split cs
      else (case boost_split cs of
              [] \<Rightarrow> [[c]]
            | t # ts \<Rightarrow> (c # t) # ts))"

text \<open>\<^verbatim>\<open>std::unordered_map\<close> as a list of pairs with distinct keys. \<^verbatim>\<open>insert\<close> leaves
  the map as it is when the key is present; \<^verbatim>\<open>at\<close> throws on a missing key;
  \<^verbatim>\<open>operator[]\<close> inserts a default-constructed value for a missing key.\<close>

type_synonym ('k, 'v) unordered_map = "('k \<times> 'v) list"

definition um_count :: "('k, 'v) unordered_map \<Rightarrow> 'k \<Rightarrow> nat" where
  "um_count m k = (case map_of m k of None \<Rightarrow> 0 | Some v \<Rightarrow> 1)"

definition um_insert :: "('k, 'v) unordered_map \<Rightarrow> 'k \<Rightarrow> 'v \<Rightarrow> ('k, 'v) unordered_map" where
  "um_insert m k v = (case map_of m k of None \<Rightarrow> m @ [(k, v)] | Some w \<Rightarrow> m)"

definition um_at :: "('k, 'v) unordered_map \<Rightarrow> 'k \<Rightarrow> error + 'v" where
  "um_at m k = (case map_of m k of None \<Rightarrow> Inl (out_of_range ''unordered_map::at'') | Some v \<Rightarrow> Inr v)"

definition um_index :: "'v \<Rightarrow> ('k, 'v) unordered_map \<Rightarrow> 'k \<Rightarrow> 'v \<times> ('k, 'v) unordered_map" where
  "um_index dflt m k = (case map_of m k of None \<Rightarrow> (dflt, m @ [(k, dflt)]) | Some v \<Rightarrow> (v, m))"

section \<open>The environment: file system and image library\<close>

text \<open>A \<^verbatim>\<open>boost::filesystem::path\<close> of a directory entry: the directory and the file
  name. \<open>path_append\<close> is \<^verbatim>\<open>operator/\<close> on a directory, \<open>path_string\<close> is \<^verbatim>\<open>string()\<close>.\<close>

record path =
  parent_path :: string
  filename :: string

definition path_append :: "string \<Rightarrow> string \<Rightarrow> path" where
  "path_append dir name = \<lparr>parent_path = dir, filename = name\<rparr>"

definition path_string :: "path \<Rightarrow> string" where
  "path_string p = parent_path p @ ''/'' @ filename p"

text \<open>\<^verbatim>\<open>cv::Mat\<close>: its dimensions and its pixels; a contour is a \<^verbatim>\<open>std::vector<cv::Point>\<close>.\<close>

record Mat =
  rows :: int
  cols :: int
  pixels :: "int list"

type_synonym contour = "(int \<times> int) list"

datatype imread_flag = IMREAD_UNCHANGED | IMREAD_GRAYSCALE

text \<open>What the program reads from the file system and calls in Boost, OpenCV and the
  standard library. \<open>directory_iterator\<close> gives the names of the entries of a directory
  in the order of the iteration; \<open>getlines\<close> gives the lines that the successive calls of
  \<^verbatim>\<open>std::getline\<close> read from a file; \<open>stof\<close> is \<^verbatim>\<open>std::stof\<close>, \<open>None\<close> when it throws;
  \<open>std_sort\<close> is \<^verbatim>\<open>std::sort\<close> with a comparison function; \<open>setTo_zero im msk\<close> is
  \<^verbatim>\<open>im.setTo(0, msk == 0)\<close> and \<open>roi im ci\<close> is \<^verbatim>\<open>im(ci)\<close>, both taken to return.\<close>

record env =
  is_directory :: "string \<Rightarrow> bool"
  is_regular_file :: "string \<Rightarrow> bool"
  directory_iterator :: "string \<Rightarrow> string list"
  getlines :: "string \<Rightarrow> string list"
  stof :: "string \<Rightarrow> fl option"
  imread :: "string \<Rightarrow> imread_flag \<Rightarrow> Mat"
  resize :: "Mat \<Rightarrow> fl \<Rightarrow> Mat"
  setTo_zero :: "Mat \<Rightarrow> Mat \<Rightarrow> Mat"
  roi :: "Mat \<Rightarrow> Rect \<Rightarrow> Mat"
  findContours :: "Mat \<Rightarrow> contour list"
  minAreaRect :: "contour \<Rightarrow> RotatedRect"
  boundingRect :: "contour \<Rightarrow> Rect"
  std_sort :: "(contour \<Rightarrow> contour \<Rightarrow> bool) \<Rightarrow> contour list \<Rightarrow> contour list"

section \<open>PCB\<close>

text \<open>The fields of \<^verbatim>\<open>class PCB\<close>; \<open>recordings_map\<close>, \<open>cache_cropinfo\<close> and \<open>cache_ics\<close>
  are the private members \<^verbatim>\<open>_recordings\<close>, \<^verbatim>\<open>_cache_cropinfo\<close> and \<^verbatim>\<open>_cache_ics\<close>.\<close>

record PCB =
  pcb_root :: string
  pcb_scale :: fl
  recordings_map :: "(int, path) unordered_map"
  cache_cropinfo :: "(int, Rect) unordered_map"
  cache_ics :: "(int, Annot list) unordered_map"

text \<open>The loop of the constructor over the entries of the root directory. An exception
  of \<^verbatim>\<open>std::stoi\<close> leaves the constructor.\<close>

fun scan_recordings ::
  "env \<Rightarrow> string \<Rightarrow> string list \<Rightarrow> (int, path) unordered_map \<Rightarrow> error + (int, path) unordered_map"
where
  "scan_recordings env dir [] m = Inr m"
| "scan_recordings env dir (fname # rest) m =
     (let p = path_append dir fname in
      if is_regular_file env (path_string p) then
        if length fname > 7 \<and> take 3 fname = ''rec'' \<and> drop (length fname - 4) fname = ''.jpg''
        then
          (let rid = drop 3 fname; rid = take (length rid - 4) rid in
           case stoi rid of
             Inl e \<Rightarrow> Inl e
           | Inr k \<Rightarrow> scan_recordings env dir rest (um_insert m k p))
        else scan_recordings env dir rest m
      else scan_recordings env dir rest m)"

text \<open>\<^verbatim>\<open>root.substr(root.size()-1, 1)\<close>: for an empty string the position wraps around
  and \<^verbatim>\<open>substr\<close> throws.\<close>

definition last_char :: "string \<Rightarrow> error + string" where
  "last_char s = (if s = [] then Inl (out_of_range ''basic_string::substr'') else Inr [last s])"

definition PCB_new :: "env \<Rightarrow> string \<Rightarrow> fl \<Rightarrow> error + PCB" where
  "PCB_new env r sc =
     (if \<not> is_directory env r then Inl (invalid_argument ''Root path is not a directory.'')
      else case last_char r of
        Inl e \<Rightarrow> Inl e
      | Inr c \<Rightarrow>
          if c = ''/'' then Inl (invalid_argument ''Root path must not end with /'')
          else if fle sc (Fin 0) \<or> fgt sc (Fin 2)
          then Inl (invalid_argument ''Scale must be > 0 and <= 2.'')
          else (case scan_recordings env r (directory_iterator env r) [] of
                  Inl e \<Rightarrow> Inl e
                | Inr m \<Rightarrow>
                    Inr \<lparr>pcb_root = r, pcb_scale = sc, recordings_map = m,
                         cache_cropinfo = [], cache_ics = []\<rparr>))"

definition recordings :: "PCB \<Rightarrow> int list" where
  "recordings pcb = map fst (recordings_map pcb)"

definition image :: "env \<Rightarrow> PCB \<Rightarrow> int \<Rightarrow> error + Mat" where
  "image env pcb rec =
     (if um_count (recordings_map pcb) rec = 0
      then Inl (invalid_argument ''Recording does not exist.'')
      else case um_at (recordings_map pcb) rec of
        Inl e \<Rightarrow> Inl e
      | Inr p \<Rightarrow>
          (let im = imread env (path_string p) IMREAD_UNCHANGED in
           if rows im = 0 then Inl (runtime_error ''Could not load the image.'')
           else if pcb_scale pcb \<noteq> Fin 1 then Inr (resize env im (pcb_scale pcb))
           else Inr im))"

text \<open>The sibling files of a recording: \<^verbatim>\<open>impath.parent_path() / ss.str()\<close> with
  \<^verbatim>\<open>ss << "rec" << rec << "-mask.png"\<close>, and the same with \<^verbatim>\<open>"-annot.txt"\<close>.\<close>

definition mask_path :: "path \<Rightarrow> int \<Rightarrow> path" where
  "mask_path p rec = path_append (parent_path p) (''rec'' @ show_int rec @ ''-mask.png'')"

definition annot_path :: "path \<Rightarrow> int \<Rightarrow> path" where
  "annot_path p rec = path_append (parent_path p) (''rec'' @ show_int rec @ ''-annot.txt'')"

definition mask :: "env \<Rightarrow> PCB \<Rightarrow> int \<Rightarrow> error + Mat" where
  "mask env pcb rec =
     (if um_count (recordings_map pcb) rec = 0
      then Inl (invalid_argument ''Recording does not exist.'')
      else case um_at (recordings_map pcb) rec of
        Inl e \<Rightarrow> Inl e
      | Inr p \<Rightarrow>
          (let impath = mask_path p rec in
           if \<not> is_regular_file env (path_string impath)
           then Inl (runtime_error ''Mask file does not exist.'')
           else
             (let im = imread env (path_string impath) IMREAD_GRAYSCALE in
              if rows im = 0 then Inl (runtime_error ''Could not load the image.'')
              else if pcb_scale pcb \<noteq> Fin 1 then Inr (resize env im (pcb_scale pcb))
              else Inr im)))"

text \<open>The comparison function of the sort in \<^verbatim>\<open>_cropinfo\<close>.\<close>

definition area_less :: "env \<Rightarrow> contour \<Rightarrow> contour \<Rightarrow> bool" where
  "area_less env a b = flt (area (minAreaRect env a)) (area (minAreaRect env b))"

text \<open>\<^verbatim>\<open>PCB::_cropinfo\<close>. A method that changes the PCB returns the result, or the
  exception, together with the PCB as the call leaves it. With no contour,
  \<^verbatim>\<open>cnt[cnt.size()-1]\<close> reads the empty vector at index \<^verbatim>\<open>SIZE_MAX\<close>.\<close>

definition zero_Rect :: Rect where
  "zero_Rect = \<lparr>rect_x = 0, rect_y = 0, rect_width = 0, rect_height = 0\<rparr>"

definition cropinfo :: "env \<Rightarrow> PCB \<Rightarrow> int \<Rightarrow> (error + Rect) \<times> PCB" where
  "cropinfo env pcb rec =
     (if um_count (cache_cropinfo pcb) rec = 1
      then (let (r, c) = um_index zero_Rect (cache_cropinfo pcb) rec
            in (Inr r, pcb\<lparr>cache_cropinfo := c\<rparr>))
      else case mask env pcb rec of
        Inl e \<Rightarrow> (Inl e, pcb)
      | Inr im \<Rightarrow>
          (let cnt = std_sort env (area_less env) (findContours env im) in
           if cnt = [] then (Inl undefined_behaviour, pcb)
           else
             (let c1 = um_insert (cache_cropinfo pcb) rec (boundingRect env (last cnt));
                  (r, c2) = um_index zero_Rect c1 rec
              in (Inr r, pcb\<lparr>cache_cropinfo := c2\<rparr>))))"

definition imageMasked :: "env \<Rightarrow> PCB \<Rightarrow> int \<Rightarrow> (error + Mat) \<times> PCB" where
  "imageMasked env pcb rec =
     (case image env pcb rec of
        Inl e \<Rightarrow> (Inl e, pcb)
      | Inr im \<Rightarrow>
          (case mask env pcb rec of
             Inl e \<Rightarrow> (Inl e, pcb)
           | Inr msk \<Rightarrow>
               (case cropinfo env pcb rec of
                  (Inl e, pcb') \<Rightarrow> (Inl e, pcb')
                | (Inr ci, pcb') \<Rightarrow> (Inr (roi env (setTo_zero env im msk) ci), pcb'))))"

subsection \<open>ics\<close>

text \<open>One pass of the loop over the lines of the annotation file, in three parts: the
  parsing of the line up to the construction of \<^verbatim>\<open>rr\<close>, the four filter tests (each a
  \<^verbatim>\<open>continue\<close>), and the rest of the body. The two bounds \<^verbatim>\<open>size(0), size(1)\<close> of a
  \<^verbatim>\<open>cv::Vec2f\<close> are a pair.\<close>

definition parse_line :: "env \<Rightarrow> string list \<Rightarrow> error + RotatedRect" where
  "parse_line env split =
     (if length split < 5
      then Inl (runtime_error ''Invalid line encountered while parsing file.'')
      else case (stof env (split ! 0), stof env (split ! 1), stof env (split ! 2),
                 stof env (split ! 3), stof env (split ! 4)) of
        (Some cx, Some cy, Some w, Some h, Some a) \<Rightarrow>
          Inr \<lparr>center_x = cx, center_y = cy, size_width = w, size_height = h, angle = a\<rparr>
      | _ \<Rightarrow> Inl stof_exception)"

definition filtered_out :: "fl \<times> fl \<Rightarrow> fl \<times> fl \<Rightarrow> RotatedRect \<Rightarrow> bool" where
  "filtered_out size_b aspect_b rr =
     (let tmp = \<lparr>rect = rr, scale = Fin 1, label_text = []\<rparr> in
      if fgt (fst size_b) (Fin 0) \<and> flt (sizeCm2 tmp False) (fst size_b) then True
      else if fgt (snd size_b) (Fin 0) \<and> fgt (sizeCm2 tmp False) (snd size_b) then True
      else if fgt (fst aspect_b) (Fin 0) \<and> flt (aspect tmp) (fst aspect_b) then True
      else if fgt (snd aspect_b) (Fin 0) \<and> fgt (aspect tmp) (snd aspect_b) then True
      else False)"

definition scale_rect :: "fl \<Rightarrow> RotatedRect \<Rightarrow> RotatedRect" where
  "scale_rect sc rr =
     (if sc \<noteq> Fin 1
      then rr\<lparr>center_x := fmul (center_x rr) sc, center_y := fmul (center_y rr) sc,
              size_width := fmul (size_width rr) sc, size_height := fmul (size_height rr) sc\<rparr>
      else rr)"

definition crop_rect :: "Rect \<Rightarrow> RotatedRect \<Rightarrow> RotatedRect" where
  "crop_rect ci rr =
     rr\<lparr>center_x := fsub (center_x rr) (Fin (of_int (rect_x ci))),
        center_y := fsub (center_y rr) (Fin (of_int (rect_y ci)))\<rparr>"

text \<open>The loop \<^verbatim>\<open>for(size_t i = 5; i < split.size(); i++)\<close> that writes the label into
  the string stream \<open>ss\<close>.\<close>

function label_loop :: "string list \<Rightarrow> nat \<Rightarrow> string \<Rightarrow> string" where
  "label_loop split i ss =
     (if i < length split then
        label_loop split (Suc i)
          (if split ! i \<noteq> []
           then (if i < length split - 1 then ss @ split ! i @ '' '' else ss @ split ! i)
           else ss)
      else ss)"
  by pat_completeness auto
termination
  by (relation "measure (\<lambda>(split, i, ss). length split - i)") auto

declare label_loop.simps [simp del]

definition ics_line ::
  "env \<Rightarrow> int \<Rightarrow> bool \<Rightarrow> fl \<times> fl \<Rightarrow> fl \<times> fl \<Rightarrow> string \<Rightarrow> PCB \<Rightarrow> (error + Annot option) \<times> PCB"
where
  "ics_line env rec cropped size_b aspect_b line pcb =
     (let split = boost_split line in
      case parse_line env split of
        Inl e \<Rightarrow> (Inl e, pcb)
      | Inr rr \<Rightarrow>
          if filtered_out size_b aspect_b rr then (Inr None, pcb)
          else
            (let rr1 = scale_rect (pcb_scale pcb) rr in
             if cropped then
               (case cropinfo env pcb rec of
                  (Inl e, pcb') \<Rightarrow> (Inl e, pcb')
                | (Inr ci, pcb') \<Rightarrow>
                    (Inr (Some \<lparr>rect = crop_rect ci rr1, scale = pcb_scale pcb,
                                label_text = label_loop split 5 []\<rparr>), pcb'))
             else
               (Inr (Some \<lparr>rect = rr1, scale = pcb_scale pcb,
                           label_text = label_loop split 5 []\<rparr>), pcb)))"

fun ics_loop ::
  "env \<Rightarrow> int \<Rightarrow> bool \<Rightarrow> fl \<times> fl \<Rightarrow> fl \<times> fl \<Rightarrow> string list \<Rightarrow> Annot list \<Rightarrow> PCB
   \<Rightarrow> (error + Annot list) \<times> PCB"
where
  "ics_loop env rec cropped size_b aspect_b [] ret pcb = (Inr ret, pcb)"
| "ics_loop env rec cropped size_b aspect_b (line # rest) ret pcb =
     (case ics_line env rec cropped size_b aspect_b line pcb of
        (Inl e, pcb') \<Rightarrow> (Inl e, pcb')
      | (Inr None, pcb') \<Rightarrow> ics_loop env rec cropped size_b aspect_b rest ret pcb'
      | (Inr (Some a), pcb') \<Rightarrow> ics_loop env rec cropped size_b aspect_b rest (ret @ [a]) pcb')"

definition ics ::
  "env \<Rightarrow> PCB \<Rightarrow> int \<Rightarrow> bool \<Rightarrow> fl \<times> fl \<Rightarrow> fl \<times> fl \<Rightarrow> (error + Annot list) \<times> PCB"
where
  "ics env pcb rec cropped size_b aspect_b =
     (if um_count (cache_ics pcb) rec = 1
      then (let (r, c) = um_index [] (cache_ics pcb) rec in (Inr r, pcb\<lparr>cache_ics := c\<rparr>))
      else if um_count (recordings_map pcb) rec = 0
      then (Inl (invalid_argument ''Recording does not exist.''), pcb)
      else case um_at (recordings_map pcb) rec of
        Inl e \<Rightarrow> (Inl e, pcb)
      | Inr p \<Rightarrow>
          (let fpath = annot_path p rec in
           if \<not> is_regular_file env (path_string fpath)
           then (Inl (runtime_error ''Annotation file does not exist.''), pcb)
           else
             (case ics_loop env rec cropped size_b aspect_b
                     (getlines env (path_string fpath)) [] pcb of
                (Inl e, pcb') \<Rightarrow> (Inl e, pcb')
              | (Inr ret, pcb') \<Rightarrow>
                  (let c1 = um_insert (cache_ics pcb') rec ret;
                       (r, c2) = um_index [] c1 rec
                   in (Inr r, pcb'\<lparr>cache_ics := c2\<rparr>)))))"

section \<open>PCBDataset\<close>

record PCBDataset =
  dataset_root :: string
  pcbPaths :: "(int, path) unordered_map"

fun scan_pcbs ::
  "env \<Rightarrow> string \<Rightarrow> string list \<Rightarrow> (int, path) unordered_map \<Rightarrow> error + (int, path) unordered_map"
where
  "scan_pcbs env dir [] m = Inr m"
| "scan_pcbs env dir (fname # rest) m =
     (let p = path_append dir fname in
      if is_directory env (path_string p) then
        if length fname > 3 \<and> take 3 fname = ''pcb''
        then (case stoi (drop 3 fname) of
                Inl e \<Rightarrow> Inl e
              | Inr k \<Rightarrow> scan_pcbs env dir rest (um_insert m k p))
        else scan_pcbs env dir rest m
      else scan_pcbs env dir rest m)"

definition PCBDataset_new :: "env \<Rightarrow> string \<Rightarrow> error + PCBDataset" where
  "PCBDataset_new env r =
     (if \<not> is_directory env r then Inl (invalid_argument ''Root path is not a directory.'')
      else case last_char r of
        Inl e \<Rightarrow> Inl e
      | Inr c \<Rightarrow>
          if c = ''/'' then Inl (invalid_argument ''Root path must not end with /'')
          else (case scan_pcbs env r (directory_iterator env r) [] of
                  Inl e \<Rightarrow> Inl e
                | Inr m \<Rightarrow>
                    if m = [] then Inl (runtime_error ''Specified path contains no PCB directories.'')
                    else Inr \<lparr>dataset_root = r, pcbPaths = m\<rparr>))"

definition numPCBs :: "PCBDataset \<Rightarrow> nat" where
  "numPCBs d = length (pcbPaths d)"

definition pcbIDs :: "PCBDataset \<Rightarrow> int list" where
  "pcbIDs d = sort (map fst (pcbPaths d))"

definition PCBDataset_pcb :: "env \<Rightarrow> PCBDataset \<Rightarrow> int \<Rightarrow> fl \<Rightarrow> error + PCB" where
  "PCBDataset_pcb env d i sc =
     (if um_count (pcbPaths d) i = 0 then Inl (invalid_argument ''PCB does not exist.'')
      else case um_at (pcbPaths d) i of
        Inl e \<Rightarrow> Inl e
      | Inr p \<Rightarrow> PCB_new env (path_string p) sc)"

section \<open>Sequences of calls\<close>

text \<open>The two public methods that change a PCB (\<^verbatim>\<open>image\<close>, \<^verbatim>\<open>mask\<close>, \<^verbatim>\<open>recordings\<close> and
  \<^verbatim>\<open>id\<close> are \<^verbatim>\<open>const\<close>). A call comes with the environment it runs in, since the files
  may change between two calls. \<open>run_calls\<close> is the PCB after a sequence of calls, whether
  they return or throw.\<close>

datatype call =
    call_ics env int bool "fl \<times> fl" "fl \<times> fl"
  | call_imageMasked env int

fun run_call :: "call \<Rightarrow> PCB \<Rightarrow> PCB" where
  "run_call (call_ics env rec cropped size_b aspect_b) pcb =
     snd (ics env pcb rec cropped size_b aspect_b)"
| "run_call (call_imageMasked env rec) pcb = snd (imageMasked env pcb rec)"

definition run_calls :: "call list \<Rightarrow> PCB \<Rightarrow> PCB" where
  "run_calls calls pcb = foldl (\<lambda>p c. run_call c p) pcb calls"

section \<open>Auxiliary notions for the statements\<close>

text \<open>The Annot that one pass of the loop of \<^verbatim>\<open>ics\<close> appends for a line that passed the
  filters: \<open>rr\<close> is the rectangle parsed from the line, \<open>sc\<close> the scale factor of the PCB
  and \<open>ci\<close> the crop rectangle, when \<open>cropped\<close> is set.\<close>

definition finish_annot :: "fl \<Rightarrow> Rect option \<Rightarrow> string \<Rightarrow> RotatedRect \<Rightarrow> Annot" where
  "finish_annot sc ci line rr =
     \<lparr>rect = (case ci of None \<Rightarrow> scale_rect sc rr | Some c \<Rightarrow> crop_rect c (scale_rect sc rr)),
      scale = sc,
      label_text = label_loop (boost_split line) 5 []\<rparr>"

text \<open>The filter rule in the words of the specification: the size in square centimetres
  and the aspect ratio of the unscaled parsed rectangle, and the four rejections; a
  bound of 0 is no bound.\<close>

definition spec_size_cm2 :: "RotatedRect \<Rightarrow> fl" where
  "spec_size_cm2 rr = fmul (fdiv (size_width rr) (Fin 87.4)) (fdiv (size_height rr) (Fin 87.4))"

definition spec_aspect :: "RotatedRect \<Rightarrow> fl" where
  "spec_aspect rr =
     fdiv (std_max (size_width rr) (size_height rr)) (std_min (size_width rr) (size_height rr))"

definition spec_rejected :: "fl \<times> fl \<Rightarrow> fl \<times> fl \<Rightarrow> RotatedRect \<Rightarrow> bool" where
  "spec_rejected size_range aspect_range rr \<longleftrightarrow>
     (fgt (fst size_range) (Fin 0) \<and> flt (spec_size_cm2 rr) (fst size_range)) \<or>
     (fgt (snd size_range) (Fin 0) \<and> fgt (spec_size_cm2 rr) (snd size_range)) \<or>
     (fgt (fst aspect_range) (Fin 0) \<and> flt (spec_aspect rr) (fst aspect_range)) \<or>
     (fgt (snd aspect_range) (Fin 0) \<and> fgt (spec_aspect rr) (snd aspect_range))"

text \<open>The area of the minimum-area enclosing rotated rectangle of a contour, in the
  words of the specification.\<close>

definition enclosing_area :: "env \<Rightarrow> contour \<Rightarrow> fl" where
  "enclosing_area env c =
     fmul (size_width (minAreaRect env c)) (size_height (minAreaRect env c))"

text \<open>The part of a file name between \<^verbatim>\<open>rec\<close> and \<^verbatim>\<open>.jpg\<close>, and the two conditions on
  the name of a recording and of a PCB directory.\<close>

definition spec_rid :: "string \<Rightarrow> string" where
  "spec_rid fname = take (length fname - 7) (drop 3 fname)"

definition rec_name :: "string \<Rightarrow> bool" where
  "rec_name fname \<longleftrightarrow>
     7 < length fname \<and> take 3 fname = ''rec'' \<and> drop (length fname - 4) fname = ''.jpg''"

definition pcb_name :: "string \<Rightarrow> bool" where
  "pcb_name fname \<longleftrightarrow> 3 < length fname \<and> take 3 fname = ''pcb''"

text \<open>The entries of a directory, in the order of the iteration, that are regular files
  with the name of a recording, and those that are directories with the name of a PCB.\<close>

definition rec_files :: "env \<Rightarrow> string \<Rightarrow> string list" where
  "rec_files env r =
     filter (\<lambda>fname. is_regular_file env (path_string (path_append r fname)) \<and> rec_name fname)
       (directory_iterator env r)"

definition pcb_dirs :: "env \<Rightarrow> string \<Rightarrow> string list" where
  "pcb_dirs env r =
     filter (\<lambda>fname. is_directory env (path_string (path_append r fname)) \<and> pcb_name fname)
       (directory_iterator env r)"

section \<open>An example data set\<close>

text \<open>A sort by insertion, standing for \<^verbatim>\<open>std::sort\<close> in the example.\<close>

fun insert_by :: "('a \<Rightarrow> 'a \<Rightarrow> bool) \<Rightarrow> 'a \<Rightarrow> 'a list \<Rightarrow> 'a list" where
  "insert_by lt x [] = [x]"
| "insert_by lt x (y # ys) = (if lt x y then x # y # ys else y # insert_by lt x ys)"

definition sort_by :: "('a \<Rightarrow> 'a \<Rightarrow> bool) \<Rightarrow> 'a list \<Rightarrow> 'a list" where
  "sort_by lt xs = foldr (insert_by lt) xs []"

text \<open>
  The directory \<^verbatim>\<open>/data\<close> holds the PCB directories \<^verbatim>\<open>pcb1\<close> and \<^verbatim>\<open>pcb12x\<close> and a file.
  \<^verbatim>\<open>pcb1\<close> holds three recordings with well-formed names, 1, 2 and 7, and the files
  \<^verbatim>\<open>rec.jpg\<close> and \<^verbatim>\<open>rec12a.jpg\<close>. Recording 1 has three annotations: the second has
  width 0, the third line ends with a space. Its mask has three blobs: the contours
  \<open>blobA\<close>, with an enclosing rectangle of 10 by 10, \<open>blobB\<close>, with one of 25 by 20, and
  \<open>blobC\<close>, with one of 15 by 20; the image library returns them in this order. The mask
  of recording 2 has no foreground. Recording 7 has no mask and no annotation file.
  \<^verbatim>\<open>pcb12x\<close> holds the files \<^verbatim>\<open>rec12.jpg\<close> and \<^verbatim>\<open>rec12a.jpg\<close>. A second directory
  \<^verbatim>\<open>/data2\<close> holds the PCB directories \<^verbatim>\<open>pcb12\<close> and \<^verbatim>\<open>pcb12x\<close>, and its \<^verbatim>\<open>pcb12\<close> the
  files \<^verbatim>\<open>rec1.jpg\<close> and \<^verbatim>\<open>recording.jpg\<close>.
\<close>

definition blobA :: contour where
  "blobA = [(10, 10), (20, 10), (20, 20), (10, 20)]"

definition blobB :: contour where
  "blobB = [(40, 40), (65, 40), (65, 60), (40, 60)]"

definition blobC :: contour where
  "blobC = [(70, 10), (85, 10), (85, 30), (70, 30)]"

definition ex_fs :: env where
  "ex_fs = \<lparr>
     is_directory = (\<lambda>p. p \<in> set [''/data'', ''/data/pcb1'', ''/data/pcb12x'',
        ''/data2'', ''/data2/pcb12'', ''/data2/pcb12x'']),
     is_regular_file = (\<lambda>p. p \<in> set [''/data/readme.txt'',
        ''/data/pcb1/rec1.jpg'', ''/data/pcb1/rec1-mask.png'', ''/data/pcb1/rec1-annot.txt'',
        ''/data/pcb1/rec2.jpg'', ''/data/pcb1/rec2-mask.png'', ''/data/pcb1/rec2-annot.txt'',
        ''/data/pcb1/rec7.jpg'', ''/data/pcb1/rec.jpg'', ''/data/pcb1/rec12a.jpg'',
        ''/data/pcb12x/rec12.jpg'', ''/data/pcb12x/rec12a.jpg'',
        ''/data2/pcb12/rec1.jpg'', ''/data2/pcb12/recording.jpg'']),
     directory_iterator = (\<lambda>p.
        if p = ''/data'' then [''pcb1'', ''pcb12x'', ''readme.txt'']
        else if p = ''/data/pcb1''
        then [''rec1.jpg'', ''rec1-mask.png'', ''rec1-annot.txt'', ''rec.jpg'', ''rec12a.jpg'',
              ''rec2.jpg'', ''rec2-mask.png'', ''rec2-annot.txt'', ''rec7.jpg'']
        else if p = ''/data/pcb12x'' then [''rec12.jpg'', ''rec12a.jpg'']
        else if p = ''/data2'' then [''pcb12'', ''pcb12x'']
        else if p = ''/data2/pcb12'' then [''rec1.jpg'', ''recording.jpg'']
        else []),
     getlines = (\<lambda>p.
        if p = ''/data/pcb1/rec1-annot.txt''
        then [''50 50 10 10 0 R1 0402'', ''20 30 0 10 0 U1'', ''70 70 40 20 90 IC2 '']
        else if p = ''/data/pcb1/rec2-annot.txt'' then [''10 10 20 20 0 C3'']
        else []),
     stof = map_of [(''0'', Fin 0), (''10'', Fin 10), (''20'', Fin 20), (''30'', Fin 30),
        (''40'', Fin 40), (''50'', Fin 50), (''70'', Fin 70), (''90'', Fin 90)],
     imread = (\<lambda>p f.
        if p = ''/data/pcb1/rec1-mask.png'' then \<lparr>rows = 100, cols = 100, pixels = [1]\<rparr>
        else if p = ''/data/pcb1/rec2-mask.png'' then \<lparr>rows = 100, cols = 100, pixels = [0]\<rparr>
        else if p = ''/data/pcb1/rec1.jpg'' \<or> p = ''/data/pcb1/rec2.jpg''
        then \<lparr>rows = 100, cols = 100, pixels = [2]\<rparr>
        else \<lparr>rows = 0, cols = 0, pixels = []\<rparr>),
     resize = (\<lambda>m s. m),
     setTo_zero = (\<lambda>im msk. im),
     roi = (\<lambda>im r. im\<lparr>rows := rect_height r, cols := rect_width r\<rparr>),
     findContours = (\<lambda>m. if pixels m = [1] then [blobA, blobB, blobC] else []),
     minAreaRect = (\<lambda>c.
        if c = blobA
        then \<lparr>center_x = Fin 15, center_y = Fin 15, size_width = Fin 10,
              size_height = Fin 10, angle = Fin 0\<rparr>
        else if c = blobB
        then \<lparr>center_x = Fin 52.5, center_y = Fin 50, size_width = Fin 25,
              size_height = Fin 20, angle = Fin 0\<rparr>
        else \<lparr>center_x = Fin 77.5, center_y = Fin 20, size_width = Fin 15,
              size_height = Fin 20, angle = Fin 0\<rparr>),
     boundingRect = (\<lambda>c.
        if c = blobA then \<lparr>rect_x = 10, rect_y = 10, rect_width = 11, rect_height = 11\<rparr>
        else if c = blobB then \<lparr>rect_x = 40, rect_y = 40, rect_width = 26, rect_height = 21\<rparr>
        else \<lparr>rect_x = 70, rect_y = 10, rect_width = 16, rect_height = 21\<rparr>),
     std_sort = sort_by
   \<rparr>"

text \<open>The same machine after the data set was deleted: no directory, no file.\<close>

definition ex_fs_deleted :: env where
  "ex_fs_deleted = ex_fs\<lparr>
     is_directory := (\<lambda>p. False),
     is_regular_file := (\<lambda>p. False),
     directory_iterator := (\<lambda>p. []),
     getlines := (\<lambda>p. []),
     imread := (\<lambda>p f. \<lparr>rows = 0, cols = 0, pixels = []\<rparr>)\<rparr>"

text \<open>The PCB that \<^verbatim>\<open>PCB("/data/pcb1", 1)\<close> constructs in \<open>ex_fs\<close>.\<close>

definition ex_pcb :: PCB where
  "ex_pcb = \<lparr>pcb_root = ''/data/pcb1'', pcb_scale = Fin 1,
     recordings_map =
       [(1, \<lparr>parent_path = ''/data/pcb1'', filename = ''rec1.jpg''\<rparr>),
        (12, \<lparr>parent_path = ''/data/pcb1'', filename = ''rec12a.jpg''\<rparr>),
        (2, \<lparr>parent_path = ''/data/pcb1'', filename = ''rec2.jpg''\<rparr>),
        (7, \<lparr>parent_path = ''/data/pcb1'', filename = ''rec7.jpg''\<rparr>)],
     cache_cropinfo = [], cache_ics = []\<rparr>"

text \<open>What \<^verbatim>\<open>ics(1, false, (0,0), (0,0))\<close> returns on this PCB, and the PCB after that
  call.\<close>

definition ex_annots :: "Annot list" where
  "ex_annots =
     [\<lparr>rect = \<lparr>center_x = Fin 50, center_y = Fin 50, size_width = Fin 10,
                size_height = Fin 10, angle = Fin 0\<rparr>,
       scale = Fin 1, label_text = ''R1 0402''\<rparr>,
      \<lparr>rect = \<lparr>center_x = Fin 20, center_y = Fin 30, size_width = Fin 0,
                size_height = Fin 10, angle = Fin 0\<rparr>,
       scale = Fin 1, label_text = ''U1''\<rparr>,
      \<lparr>rect = \<lparr>center_x = Fin 70, center_y = Fin 70, size_width = Fin 40,
                size_height = Fin 20, angle = Fin 90\<rparr>,
       scale = Fin 1, label_text = ''IC2 ''\<rparr>]"

definition ex_pcb_read :: PCB where
  "ex_pcb_read = ex_pcb\<lparr>cache_ics := [(1, ex_annots)]\<rparr>"

section \<open>Lemmas\<close>

lemma um_count_1: "um_count m k = 1 \<longleftrightarrow> map_of m k \<noteq> None"
  by (simp add: um_count_def split: option.splits)

lemma um_count_Suc0: "um_count m k = Suc 0 \<longleftrightarrow> map_of m k \<noteq> None"
  by (simp add: um_count_def split: option.splits)

lemma um_count_0: "um_count m k = 0 \<longleftrightarrow> map_of m k = None"
  by (simp add: um_count_def split: option.splits)

lemma um_index_hit: "map_of m k = Some v \<Longrightarrow> um_index d m k = (v, m)"
  by (simp add: um_index_def)

lemma map_of_um_insert:
  "map_of (um_insert m k v) k' = (if map_of m k = None \<and> k' = k then Some v else map_of m k')"
  by (auto simp: um_insert_def map_add_def split: option.splits)

lemma um_at_Inr: "um_at m k = Inr v \<longleftrightarrow> map_of m k = Some v"
  by (simp add: um_at_def split: option.splits)

lemma cropinfo_hit:
  "map_of (cache_cropinfo pcb) rec = Some r \<Longrightarrow> cropinfo env pcb rec = (Inr r, pcb)"
  by (simp add: cropinfo_def um_count_1 um_count_Suc0 um_index_hit)

lemma cropinfo_frame:
  "cache_ics (snd (cropinfo env pcb rec)) = cache_ics pcb \<and>
   recordings_map (snd (cropinfo env pcb rec)) = recordings_map pcb \<and>
   pcb_scale (snd (cropinfo env pcb rec)) = pcb_scale pcb \<and>
   pcb_root (snd (cropinfo env pcb rec)) = pcb_root pcb"
  by (auto simp: cropinfo_def Let_def split: sum.splits prod.splits)

lemma cropinfo_mono:
  "map_of (cache_cropinfo pcb) k = Some v \<Longrightarrow>
   map_of (cache_cropinfo (snd (cropinfo env pcb rec))) k = Some v"
  by (auto simp: cropinfo_def Let_def um_count_1 um_count_Suc0 um_index_def map_of_um_insert
           split: sum.splits prod.splits option.splits)

lemma cropinfo_cached:
  "cropinfo env pcb rec = (Inr r, pcb') \<Longrightarrow> map_of (cache_cropinfo pcb') rec = Some r"
  by (auto simp: cropinfo_def Let_def um_count_1 um_count_Suc0 um_index_def map_of_um_insert
           split: sum.splits prod.splits option.splits if_splits)

lemma ics_line_frame:
  "cache_ics (snd (ics_line env rec cropped sb ab line pcb)) = cache_ics pcb \<and>
   recordings_map (snd (ics_line env rec cropped sb ab line pcb)) = recordings_map pcb \<and>
   pcb_scale (snd (ics_line env rec cropped sb ab line pcb)) = pcb_scale pcb \<and>
   pcb_root (snd (ics_line env rec cropped sb ab line pcb)) = pcb_root pcb"
proof -
  have "snd (ics_line env rec cropped sb ab line pcb) = pcb \<or>
        snd (ics_line env rec cropped sb ab line pcb) = snd (cropinfo env pcb rec)"
    by (auto simp: ics_line_def Let_def split: sum.splits prod.splits)
  then show ?thesis
    using cropinfo_frame [of env pcb rec] by auto
qed

lemma ics_line_mono:
  assumes "map_of (cache_cropinfo pcb) k = Some v"
  shows "map_of (cache_cropinfo (snd (ics_line env rec cropped sb ab line pcb))) k = Some v"
proof -
  have "snd (ics_line env rec cropped sb ab line pcb) = pcb \<or>
        snd (ics_line env rec cropped sb ab line pcb) = snd (cropinfo env pcb rec)"
    by (auto simp: ics_line_def Let_def split: sum.splits prod.splits)
  then show ?thesis
    using assms cropinfo_mono [of pcb k v env rec] by auto
qed

lemma ics_loop_frame:
  "cache_ics (snd (ics_loop env rec cropped sb ab lines ret pcb)) = cache_ics pcb \<and>
   recordings_map (snd (ics_loop env rec cropped sb ab lines ret pcb)) = recordings_map pcb \<and>
   pcb_scale (snd (ics_loop env rec cropped sb ab lines ret pcb)) = pcb_scale pcb \<and>
   pcb_root (snd (ics_loop env rec cropped sb ab lines ret pcb)) = pcb_root pcb"
proof (induction lines arbitrary: ret pcb)
  case Nil
  then show ?case by simp
next
  case (Cons line rest)
  obtain res pcb1 where l: "ics_line env rec cropped sb ab line pcb = (res, pcb1)"
    by (cases "ics_line env rec cropped sb ab line pcb")
  have f: "cache_ics pcb1 = cache_ics pcb \<and> recordings_map pcb1 = recordings_map pcb \<and>
           pcb_scale pcb1 = pcb_scale pcb \<and> pcb_root pcb1 = pcb_root pcb"
    using ics_line_frame [of env rec cropped sb ab line pcb] l by simp
  show ?case
  proof (cases res)
    case (Inl e)
    then show ?thesis using l f by simp
  next
    case (Inr r)
    then show ?thesis using l f Cons.IH by (cases r) simp_all
  qed
qed

lemma ics_loop_mono:
  "map_of (cache_cropinfo pcb) k = Some v \<Longrightarrow>
   map_of (cache_cropinfo (snd (ics_loop env rec cropped sb ab lines ret pcb))) k = Some v"
proof (induction lines arbitrary: ret pcb)
  case Nil
  then show ?case by simp
next
  case (Cons line rest)
  obtain res pcb1 where l: "ics_line env rec cropped sb ab line pcb = (res, pcb1)"
    by (cases "ics_line env rec cropped sb ab line pcb")
  have m: "map_of (cache_cropinfo pcb1) k = Some v"
    using ics_line_mono [OF Cons.prems, of env rec cropped sb ab line] l by simp
  show ?case
  proof (cases res)
    case (Inl e)
    then show ?thesis using l m by simp
  next
    case (Inr r)
    then show ?thesis using l Cons.IH [OF m] by (cases r) simp_all
  qed
qed

lemma ics_hit:
  "map_of (cache_ics pcb) rec = Some v \<Longrightarrow> ics env pcb rec cropped sb ab = (Inr v, pcb)"
  by (simp add: ics_def um_count_1 um_count_Suc0 um_index_hit)

lemma um_insert_index:
  "map_of m k = None \<Longrightarrow> um_index d (um_insert m k v) k = (v, m @ [(k, v)])"
  by (simp add: um_insert_def um_index_def map_add_def)

lemma ics_miss:
  assumes "map_of (cache_ics pcb) rec = None"
      and "ics env pcb rec cropped sb ab = (Inr res, pcb')"
  shows "\<exists>p pcb1. map_of (recordings_map pcb) rec = Some p \<and>
           is_regular_file env (path_string (annot_path p rec)) \<and>
           ics_loop env rec cropped sb ab (getlines env (path_string (annot_path p rec))) [] pcb
             = (Inr res, pcb1) \<and>
           pcb' = pcb1\<lparr>cache_ics := cache_ics pcb @ [(rec, res)]\<rparr>"
proof -
  from assms(1) have c: "um_count (cache_ics pcb) rec \<noteq> 1"
    by (simp add: um_count_1 um_count_Suc0)
  obtain p where p: "map_of (recordings_map pcb) rec = Some p"
    using assms(2) c by (cases "map_of (recordings_map pcb) rec") (auto simp: ics_def um_count_0)
  let ?f = "path_string (annot_path p rec)"
  have reg: "is_regular_file env ?f"
    using assms(2) c p by (auto simp: ics_def um_count_0 um_at_def Let_def split: if_splits)
  obtain r pcb1 where l: "ics_loop env rec cropped sb ab (getlines env ?f) [] pcb = (r, pcb1)"
    by (cases "ics_loop env rec cropped sb ab (getlines env ?f) [] pcb")
  have fr: "cache_ics pcb1 = cache_ics pcb"
    using ics_loop_frame [of env rec cropped sb ab "getlines env ?f" "[]" pcb] l by simp
  have ii: "um_index [] (um_insert (cache_ics pcb1) rec x) rec = (x, cache_ics pcb @ [(rec, x)])" for x
    using um_insert_index [of "cache_ics pcb1" rec "[]" x] assms(1) fr by simp
  have "r = Inr res \<and> pcb' = pcb1\<lparr>cache_ics := cache_ics pcb @ [(rec, res)]\<rparr>"
    using assms(2) c p reg l
    by (cases r) (auto simp: ics_def um_count_0 um_at_def Let_def ii)
  then show ?thesis using p reg l by auto
qed

lemma ics_cached:
  assumes "ics env pcb rec cropped sb ab = (Inr res, pcb')"
  shows "map_of (cache_ics pcb') rec = Some res"
proof (cases "map_of (cache_ics pcb) rec")
  case None
  from ics_miss [OF None assms] obtain pcb1 where
    "pcb' = pcb1\<lparr>cache_ics := cache_ics pcb @ [(rec, res)]\<rparr>" by blast
  then show ?thesis using None by (simp add: map_add_def)
next
  case (Some v)
  then show ?thesis using assms ics_hit [OF Some, of env cropped sb ab] by simp
qed

lemma ics_mono_ics:
  assumes "map_of (cache_ics pcb) k = Some v"
  shows "map_of (cache_ics (snd (ics env pcb r cropped sb ab))) k = Some v"
proof (cases "map_of (cache_ics pcb) r")
  case (Some w)
  then show ?thesis using assms ics_hit [OF Some, of env cropped sb ab] by simp
next
  case None
  then have c: "um_count (cache_ics pcb) r \<noteq> 1"
    by (simp add: um_count_1 um_count_Suc0)
  show ?thesis
  proof (cases "map_of (recordings_map pcb) r")
    case None
    then show ?thesis using c assms by (simp add: ics_def um_count_0)
  next
    case (Some p)
    let ?f = "path_string (annot_path p r)"
    obtain x pcb1 where l: "ics_loop env r cropped sb ab (getlines env ?f) [] pcb = (x, pcb1)"
      by (cases "ics_loop env r cropped sb ab (getlines env ?f) [] pcb")
    have fr: "cache_ics pcb1 = cache_ics pcb"
      using ics_loop_frame [of env r cropped sb ab "getlines env ?f" "[]" pcb] l by simp
    show ?thesis
      using c assms Some l fr
      by (cases x) (auto simp: ics_def um_count_0 um_at_def Let_def um_insert_index [OF None]
                          map_add_def)
  qed
qed

lemma ics_mono_crop:
  assumes "map_of (cache_cropinfo pcb) k = Some v"
  shows "map_of (cache_cropinfo (snd (ics env pcb r cropped sb ab))) k = Some v"
proof (cases "um_count (cache_ics pcb) r = 1")
  case True
  then show ?thesis using assms
    by (auto simp: ics_def split: prod.splits)
next
  case c: False
  show ?thesis
  proof (cases "map_of (recordings_map pcb) r")
    case None
    then show ?thesis using c assms by (simp add: ics_def um_count_0)
  next
    case (Some p)
    let ?f = "path_string (annot_path p r)"
    obtain x pcb1 where l: "ics_loop env r cropped sb ab (getlines env ?f) [] pcb = (x, pcb1)"
      by (cases "ics_loop env r cropped sb ab (getlines env ?f) [] pcb")
    have m: "map_of (cache_cropinfo pcb1) k = Some v"
      using ics_loop_mono [OF assms, of env r cropped sb ab "getlines env ?f" "[]"] l by simp
    show ?thesis
      using c assms Some l m
      by (cases x) (auto simp: ics_def um_count_0 um_at_def Let_def split: prod.splits)
  qed
qed

lemma imageMasked_state:
  "snd (imageMasked env pcb rec) = pcb \<or>
   snd (imageMasked env pcb rec) = snd (cropinfo env pcb rec)"
  by (auto simp: imageMasked_def split: sum.splits prod.splits)

lemma fdiv_one: "fdiv x (Fin 1) = x"
  by (cases x) simp_all

lemma filtered_out_spec: "filtered_out sb ab rr = spec_rejected sb ab rr"
  by (auto simp: filtered_out_def spec_rejected_def spec_size_cm2_def spec_aspect_def
        sizeCm2_def aspect_def fdiv_one)

lemma ics_line_Inr:
  assumes "ics_line env rec cropped sb ab line pcb = (Inr r, pcb1)"
  shows "\<exists>rr. parse_line env (boost_split line) = Inr rr \<and>
           (if filtered_out sb ab rr then r = None \<and> pcb1 = pcb
            else if cropped
            then \<exists>ci. cropinfo env pcb rec = (Inr ci, pcb1) \<and>
                   r = Some (finish_annot (pcb_scale pcb) (Some ci) line rr)
            else pcb1 = pcb \<and> r = Some (finish_annot (pcb_scale pcb) None line rr))"
  using assms
  by (auto simp: ics_line_def Let_def finish_annot_def split: sum.splits prod.splits if_splits)

lemma ics_loop_result:
  assumes "ics_loop env rec cropped sb ab lines ret pcb = (Inr res, pcb')"
  shows "\<exists>rrs. map (\<lambda>l. parse_line env (boost_split l)) lines = map Inr rrs \<and>
           res = ret @ map (\<lambda>(l, rr). finish_annot (pcb_scale pcb)
                              (if cropped then map_of (cache_cropinfo pcb') rec else None) l rr)
                         (filter (\<lambda>(l, rr). \<not> filtered_out sb ab rr) (zip lines rrs))"
  using assms
proof (induction lines arbitrary: ret pcb)
  case Nil
  then show ?case by simp
next
  case (Cons line rest)
  obtain x pcb1 where l: "ics_line env rec cropped sb ab line pcb = (x, pcb1)"
    by (cases "ics_line env rec cropped sb ab line pcb")
  from Cons.prems l obtain r where x: "x = Inr r"
    by (cases x) auto
  from ics_line_Inr [OF l [unfolded x]] obtain rr where
    p: "parse_line env (boost_split line) = Inr rr" and
    c: "if filtered_out sb ab rr then r = None \<and> pcb1 = pcb
        else if cropped
        then \<exists>ci. cropinfo env pcb rec = (Inr ci, pcb1) \<and>
               r = Some (finish_annot (pcb_scale pcb) (Some ci) line rr)
        else pcb1 = pcb \<and> r = Some (finish_annot (pcb_scale pcb) None line rr)"
    by blast
  have sc: "pcb_scale pcb1 = pcb_scale pcb"
    using ics_line_frame [of env rec cropped sb ab line pcb] l by simp
  show ?case
  proof (cases "filtered_out sb ab rr")
    case True
    with c have r: "r = None" by simp
    from Cons.prems l x r have "ics_loop env rec cropped sb ab rest ret pcb1 = (Inr res, pcb')"
      by simp
    from Cons.IH [OF this] obtain rrs where
      "map (\<lambda>l. parse_line env (boost_split l)) rest = map Inr rrs" and
      "res = ret @ map (\<lambda>(l, rr). finish_annot (pcb_scale pcb1)
                              (if cropped then map_of (cache_cropinfo pcb') rec else None) l rr)
                         (filter (\<lambda>(l, rr). \<not> filtered_out sb ab rr) (zip rest rrs))"
      by blast
    then show ?thesis
      using p True sc by (intro exI [of _ "rr # rrs"]) simp
  next
    case False
    define a where "a = finish_annot (pcb_scale pcb)
        (if cropped then map_of (cache_cropinfo pcb') rec else None) line rr"
    have loop: "ics_loop env rec cropped sb ab rest (ret @ [the r]) pcb1 = (Inr res, pcb')"
      using Cons.prems l x c False by (auto split: if_splits)
    have r: "r = Some a"
    proof (cases cropped)
      case True
      with c False obtain ci where ci: "cropinfo env pcb rec = (Inr ci, pcb1)"
        and rv: "r = Some (finish_annot (pcb_scale pcb) (Some ci) line rr)" by auto
      have "map_of (cache_cropinfo pcb1) rec = Some ci"
        by (rule cropinfo_cached [OF ci])
      from ics_loop_mono [OF this, of env rec cropped sb ab rest "ret @ [the r]"] loop
      have "map_of (cache_cropinfo pcb') rec = Some ci" by simp
      then show ?thesis using rv True by (simp add: a_def)
    next
      case False
      then show ?thesis using c \<open>\<not> filtered_out sb ab rr\<close> by (simp add: a_def)
    qed
    from loop r have "ics_loop env rec cropped sb ab rest (ret @ [a]) pcb1 = (Inr res, pcb')"
      by simp
    from Cons.IH [OF this] obtain rrs where
      "map (\<lambda>l. parse_line env (boost_split l)) rest = map Inr rrs" and
      "res = (ret @ [a]) @ map (\<lambda>(l, rr). finish_annot (pcb_scale pcb1)
                              (if cropped then map_of (cache_cropinfo pcb') rec else None) l rr)
                         (filter (\<lambda>(l, rr). \<not> filtered_out sb ab rr) (zip rest rrs))"
      by blast
    then show ?thesis
      using p False sc by (intro exI [of _ "rr # rrs"]) (simp add: a_def)
  qed
qed

lemma ics_result:
  assumes "map_of (cache_ics pcb) rec = None"
      and "ics env pcb rec cropped sb ab = (Inr res, pcb')"
  shows "\<exists>p rrs. map_of (recordings_map pcb) rec = Some p \<and>
           is_regular_file env (path_string (annot_path p rec)) \<and>
           map (\<lambda>l. parse_line env (boost_split l)) (getlines env (path_string (annot_path p rec)))
             = map Inr rrs \<and>
           res = map (\<lambda>(l, rr). finish_annot (pcb_scale pcb)
                        (if cropped then map_of (cache_cropinfo pcb') rec else None) l rr)
                   (filter (\<lambda>(l, rr). \<not> filtered_out sb ab rr)
                      (zip (getlines env (path_string (annot_path p rec))) rrs))"
proof -
  from ics_miss [OF assms] obtain p pcb1 where
    p: "map_of (recordings_map pcb) rec = Some p" and
    reg: "is_regular_file env (path_string (annot_path p rec))" and
    loop: "ics_loop env rec cropped sb ab (getlines env (path_string (annot_path p rec))) [] pcb
             = (Inr res, pcb1)" and
    st: "pcb' = pcb1\<lparr>cache_ics := cache_ics pcb @ [(rec, res)]\<rparr>"
    by blast
  from st have "cache_cropinfo pcb' = cache_cropinfo pcb1" by simp
  with ics_loop_result [OF loop] p reg show ?thesis by auto
qed

lemma run_call_mono_ics:
  "map_of (cache_ics pcb) k = Some v \<Longrightarrow> map_of (cache_ics (run_call c pcb)) k = Some v"
proof (cases c)
  case (call_ics env r cropped sb ab)
  assume "map_of (cache_ics pcb) k = Some v"
  then show ?thesis using call_ics by (simp add: ics_mono_ics)
next
  case (call_imageMasked env r)
  assume "map_of (cache_ics pcb) k = Some v"
  then show ?thesis
    using call_imageMasked imageMasked_state [of env pcb r] cropinfo_frame [of env pcb r]
    by auto
qed

lemma run_call_mono_crop:
  "map_of (cache_cropinfo pcb) k = Some v \<Longrightarrow> map_of (cache_cropinfo (run_call c pcb)) k = Some v"
proof (cases c)
  case (call_ics env r cropped sb ab)
  assume "map_of (cache_cropinfo pcb) k = Some v"
  then show ?thesis using call_ics by (simp add: ics_mono_crop)
next
  case (call_imageMasked env r)
  assume "map_of (cache_cropinfo pcb) k = Some v"
  then show ?thesis
    using call_imageMasked imageMasked_state [of env pcb r] cropinfo_mono [of pcb k v env r]
    by auto
qed

lemma run_calls_mono_ics:
  "map_of (cache_ics pcb) k = Some v \<Longrightarrow> map_of (cache_ics (run_calls cs pcb)) k = Some v"
  unfolding run_calls_def
  by (induction cs arbitrary: pcb) (simp_all add: run_call_mono_ics)

lemma run_calls_mono_crop:
  "map_of (cache_cropinfo pcb) k = Some v \<Longrightarrow>
   map_of (cache_cropinfo (run_calls cs pcb)) k = Some v"
  unfolding run_calls_def
  by (induction cs arbitrary: pcb) (simp_all add: run_call_mono_crop)

lemma fgt_zero_zero: "\<not> fgt (Fin 0) (Fin 0)"
  by (simp add: fgt_def)

lemma cropinfo_miss:
  assumes "map_of (cache_cropinfo pcb) rec = None"
      and "mask env pcb rec = Inr im"
      and "std_sort env (area_less env) (findContours env im) \<noteq> []"
  shows "cropinfo env pcb rec =
           (Inr (boundingRect env (last (std_sort env (area_less env) (findContours env im)))),
            pcb\<lparr>cache_cropinfo := cache_cropinfo pcb @
              [(rec, boundingRect env (last (std_sort env (area_less env) (findContours env im))))]\<rparr>)"
  using assms
  by (simp add: cropinfo_def um_count_1 um_count_Suc0 Let_def um_insert_index)

lemma last_sorted_wrt_max:
  assumes "sorted_wrt (\<lambda>a b. \<not> lt b a) ys" and "ys \<noteq> []" and "d \<in> set ys"
      and irr: "\<not> lt (last ys) (last ys)"
  shows "\<not> lt (last ys) d"
proof -
  from assms(2) obtain zs z where ys: "ys = zs @ [z]"
    by (metis append_butlast_last_id)
  show ?thesis
  proof (cases "d \<in> set zs")
    case True
    then show ?thesis using assms(1) ys by (simp add: sorted_wrt_append)
  next
    case False
    then have "d = z" using assms(3) ys by simp
    then show ?thesis using irr ys by simp
  qed
qed

lemma flt_irrefl: "\<not> flt a a"
  by (cases a) simp_all

lemma scan_pcbs_dom:
  assumes "scan_pcbs env dir names m = Inr m'"
  shows "map_of m' k \<noteq> None \<longleftrightarrow>
           map_of m k \<noteq> None \<or>
           (\<exists>fname \<in> set names. is_directory env (path_string (path_append dir fname)) \<and>
               pcb_name fname \<and> stoi (drop 3 fname) = Inr k)"
  using assms
proof (induction names arbitrary: m)
  case Nil
  then show ?case by simp
next
  case (Cons fname rest)
  show ?case
  proof (cases "is_directory env (path_string (path_append dir fname)) \<and> pcb_name fname")
    case False
    then have "scan_pcbs env dir rest m = Inr m'"
      using Cons.prems by (auto simp: pcb_name_def Let_def split: if_splits)
    from Cons.IH [OF this] False show ?thesis by auto
  next
    case True
    then obtain j where j: "stoi (drop 3 fname) = Inr j"
      and r: "scan_pcbs env dir rest (um_insert m j (path_append dir fname)) = Inr m'"
      using Cons.prems by (auto simp: pcb_name_def Let_def split: if_splits sum.splits)
    from Cons.IH [OF r] True j show ?thesis
      by (auto simp: map_of_um_insert split: if_splits)
  qed
qed

lemma isdigit_not_space: "isdigit c \<Longrightarrow> \<not> isspace c \<and> c \<noteq> CHR ''-'' \<and> c \<noteq> CHR ''+''"
  by (auto simp: isdigit_def isspace_def)

lemma stoi_leading_digits:
  assumes "ds \<noteq> []" and "\<forall>c \<in> set ds. isdigit c" and "rest = [] \<or> \<not> isdigit (hd rest)"
      and "digits_value ds \<le> 2147483647"
  shows "stoi (ds @ rest) = Inr (int (digits_value ds))"
proof -
  from assms(1) obtain d ds' where ds: "ds = d # ds'" by (cases ds) auto
  with assms(2) have d: "isdigit d" by simp
  have tw: "takeWhile isdigit (ds @ rest) = ds"
    using assms(2,3) by (cases rest) (simp_all add: takeWhile_append2)
  have dw: "dropWhile isspace (ds @ rest) = ds @ rest"
    using ds isdigit_not_space [OF d] by simp
  have hd: "hd (ds @ rest) = d" using ds by simp
  show ?thesis
    using assms(1,4) isdigit_not_space [OF d] 
    by (simp add: stoi_def dw hd tw Let_def)
qed

lemma map_snd_filter_zip:
  "length xs = length ys \<Longrightarrow> map snd (filter (\<lambda>(l, rr). P rr) (zip xs ys)) = filter P ys"
  by (induction xs ys rule: list_induct2) auto

lemma scan_recordings_all:
  assumes "scan_recordings env dir names m = Inr m'"
      and "fname \<in> set names"
      and "is_regular_file env (path_string (path_append dir fname))" and "rec_name fname"
  shows "\<exists>k. stoi (spec_rid fname) = Inr k"
  using assms(1,2)
proof (induction names arbitrary: m)
  case Nil
  then show ?case by simp
next
  case (Cons f rest)
  show ?case
  proof (cases "is_regular_file env (path_string (path_append dir f)) \<and> rec_name f")
    case False
    then have "scan_recordings env dir rest m = Inr m'"
      using Cons.prems by (auto simp: rec_name_def Let_def split: if_splits)
    from Cons.IH [OF this] Cons.prems(2) False assms(3,4) show ?thesis by auto
  next
    case True
    then obtain j where j: "stoi (spec_rid f) = Inr j"
      and r: "scan_recordings env dir rest (um_insert m j (path_append dir f)) = Inr m'"
      using Cons.prems
      by (auto simp: rec_name_def spec_rid_def Let_def split: if_splits sum.splits)
    from Cons.IH [OF r] Cons.prems(2) j show ?thesis by auto
  qed
qed

lemma scan_pcbs_all:
  assumes "scan_pcbs env dir names m = Inr m'"
      and "fname \<in> set names"
      and "is_directory env (path_string (path_append dir fname))" and "pcb_name fname"
  shows "\<exists>k. stoi (drop 3 fname) = Inr k"
  using assms(1,2)
proof (induction names arbitrary: m)
  case Nil
  then show ?case by simp
next
  case (Cons f rest)
  show ?case
  proof (cases "is_directory env (path_string (path_append dir f)) \<and> pcb_name f")
    case False
    then have "scan_pcbs env dir rest m = Inr m'"
      using Cons.prems by (auto simp: pcb_name_def Let_def split: if_splits)
    from Cons.IH [OF this] Cons.prems(2) False assms(3,4) show ?thesis by auto
  next
    case True
    then obtain j where j: "stoi (drop 3 f) = Inr j"
      and r: "scan_pcbs env dir rest (um_insert m j (path_append dir f)) = Inr m'"
      using Cons.prems by (auto simp: pcb_name_def Let_def split: if_splits sum.splits)
    from Cons.IH [OF r] Cons.prems(2) j show ?thesis by auto
  qed
qed

lemmas ex_simps =
  ex_fs_def ex_fs_deleted_def ex_pcb_def ex_annots_def ex_pcb_read_def blobA_def blobB_def
  blobC_def
  path_string_def path_append_def annot_path_def mask_path_def show_int_def show_nat.simps
  um_count_def um_at_def um_insert_def um_index_def
  ics_def ics_line_def parse_line_def filtered_out_def scale_rect_def crop_rect_def
  label_loop.simps cropinfo_def mask_def image_def imageMasked_def area_less_def area_def
  sort_by_def sizeCm2_def aspect_def std_max_def std_min_def fgt_def zero_Rect_def
  stoi_def isspace_def isdigit_def digits_value_def digit_value_def last_char_def Let_def

lemma ex_first_call:
  "ics ex_fs ex_pcb 1 False (Fin 0, Fin 0) (Fin 0, Fin 0) = (Inr ex_annots, ex_pcb_read)"
  by (simp add: ex_simps)

lemma area_less_enclosing:
  "area_less env = (\<lambda>a b. flt (enclosing_area env a) (enclosing_area env b))"
  by (intro ext) (simp add: area_less_def area_def enclosing_area_def)

lemma scan_recordings_find:
  assumes "\<forall>f \<in> set (filter (\<lambda>f. is_regular_file env (path_string (path_append dir f)) \<and>
                                rec_name f) names). \<exists>k. stoi (spec_rid f) = Inr k"
  shows "\<exists>m'. scan_recordings env dir names m = Inr m' \<and>
           (\<forall>k. map_of m' k =
              (case map_of m k of
                 Some p \<Rightarrow> Some p
               | None \<Rightarrow> map_option (path_append dir)
                   (find (\<lambda>f. stoi (spec_rid f) = Inr k)
                      (filter (\<lambda>f. is_regular_file env (path_string (path_append dir f)) \<and>
                                   rec_name f) names))))"
  using assms
proof (induction names arbitrary: m)
  case Nil
  then show ?case by (simp split: option.splits)
next
  case (Cons fname rest)
  let ?conf = "\<lambda>f. is_regular_file env (path_string (path_append dir f)) \<and> rec_name f"
  from Cons.prems have rest: "\<forall>f \<in> set (filter ?conf rest). \<exists>k. stoi (spec_rid f) = Inr k"
    by auto
  show ?case
  proof (cases "?conf fname")
    case False
    then have eq: "scan_recordings env dir (fname # rest) m = scan_recordings env dir rest m"
      by (auto simp: rec_name_def Let_def)
    have fl: "filter ?conf (fname # rest) = filter ?conf rest"
      using False by simp
    show ?thesis
      unfolding eq fl by (rule Cons.IH [OF rest])
  next
    case True
    with Cons.prems obtain j where j: "stoi (spec_rid fname) = Inr j" by auto
    have "scan_recordings env dir (fname # rest) m =
          scan_recordings env dir rest (um_insert m j (path_append dir fname))"
      using True j by (auto simp: rec_name_def spec_rid_def Let_def)
    then have eq: "scan_recordings env dir (fname # rest) m =
          scan_recordings env dir rest (um_insert m j (path_append dir fname))" .
    have fl: "filter ?conf (fname # rest) = fname # filter ?conf rest"
      using True by simp
    from Cons.IH [OF rest, of "um_insert m j (path_append dir fname)"] obtain m' where
      r: "scan_recordings env dir rest (um_insert m j (path_append dir fname)) = Inr m'" and
      v: "\<And>k. map_of m' k =
              (case map_of (um_insert m j (path_append dir fname)) k of
                 Some p \<Rightarrow> Some p
               | None \<Rightarrow> map_option (path_append dir)
                   (find (\<lambda>f. stoi (spec_rid f) = Inr k) (filter ?conf rest)))"
      by blast
    have "map_of m' k =
              (case map_of m k of
                 Some p \<Rightarrow> Some p
               | None \<Rightarrow> map_option (path_append dir)
                   (find (\<lambda>f. stoi (spec_rid f) = Inr k) (fname # filter ?conf rest)))" for k
      unfolding v [of k] using j
      by (cases "map_of m k"; cases "k = j") (auto simp: map_of_um_insert)
    then show ?thesis
      unfolding eq fl using r by blast
  qed
qed

lemma scan_recordings_throws:
  assumes "f \<in> set names" and "is_regular_file env (path_string (path_append dir f))"
      and "rec_name f" and "stoi (spec_rid f) = Inl e"
  shows "\<exists>e'. scan_recordings env dir names m = Inl e'"
  using assms(1)
proof (induction names arbitrary: m)
  case Nil
  then show ?case by simp
next
  case (Cons fname rest)
  show ?case
  proof (cases "fname = f")
    case True
    then show ?thesis using assms(2,3,4) by (auto simp: rec_name_def spec_rid_def Let_def)
  next
    case False
    with Cons.prems have "f \<in> set rest" by simp
    from Cons.IH [OF this] show ?thesis
      by (auto simp: Let_def split: sum.splits)
  qed
qed

lemma scan_pcbs_find:
  assumes "\<forall>f \<in> set (filter (\<lambda>f. is_directory env (path_string (path_append dir f)) \<and>
                                pcb_name f) names). \<exists>k. stoi (drop 3 f) = Inr k"
  shows "\<exists>m'. scan_pcbs env dir names m = Inr m' \<and>
           (\<forall>k. map_of m' k =
              (case map_of m k of
                 Some p \<Rightarrow> Some p
               | None \<Rightarrow> map_option (path_append dir)
                   (find (\<lambda>f. stoi (drop 3 f) = Inr k)
                      (filter (\<lambda>f. is_directory env (path_string (path_append dir f)) \<and>
                                   pcb_name f) names))))"
  using assms
proof (induction names arbitrary: m)
  case Nil
  then show ?case by (simp split: option.splits)
next
  case (Cons fname rest)
  let ?conf = "\<lambda>f. is_directory env (path_string (path_append dir f)) \<and> pcb_name f"
  from Cons.prems have rest: "\<forall>f \<in> set (filter ?conf rest). \<exists>k. stoi (drop 3 f) = Inr k"
    by auto
  show ?case
  proof (cases "?conf fname")
    case False
    then have eq: "scan_pcbs env dir (fname # rest) m = scan_pcbs env dir rest m"
      by (auto simp: pcb_name_def Let_def)
    have fl: "filter ?conf (fname # rest) = filter ?conf rest"
      using False by simp
    show ?thesis
      unfolding eq fl by (rule Cons.IH [OF rest])
  next
    case True
    with Cons.prems obtain j where j: "stoi (drop 3 fname) = Inr j" by auto
    have "scan_pcbs env dir (fname # rest) m =
          scan_pcbs env dir rest (um_insert m j (path_append dir fname))"
      using True j by (auto simp: pcb_name_def Let_def)
    then have eq: "scan_pcbs env dir (fname # rest) m =
          scan_pcbs env dir rest (um_insert m j (path_append dir fname))" .
    have fl: "filter ?conf (fname # rest) = fname # filter ?conf rest"
      using True by simp
    from Cons.IH [OF rest, of "um_insert m j (path_append dir fname)"] obtain m' where
      r: "scan_pcbs env dir rest (um_insert m j (path_append dir fname)) = Inr m'" and
      v: "\<And>k. map_of m' k =
              (case map_of (um_insert m j (path_append dir fname)) k of
                 Some p \<Rightarrow> Some p
               | None \<Rightarrow> map_option (path_append dir)
                   (find (\<lambda>f. stoi (drop 3 f) = Inr k) (filter ?conf rest)))"
      by blast
    have "map_of m' k =
              (case map_of m k of
                 Some p \<Rightarrow> Some p
               | None \<Rightarrow> map_option (path_append dir)
                   (find (\<lambda>f. stoi (drop 3 f) = Inr k) (fname # filter ?conf rest)))" for k
      unfolding v [of k] using j
      by (cases "map_of m k"; cases "k = j") (auto simp: map_of_um_insert)
    then show ?thesis
      unfolding eq fl using r by blast
  qed
qed

lemma scan_pcbs_throws:
  assumes "f \<in> set names" and "is_directory env (path_string (path_append dir f))"
      and "pcb_name f" and "stoi (drop 3 f) = Inl e"
  shows "\<exists>e'. scan_pcbs env dir names m = Inl e'"
  using assms(1)
proof (induction names arbitrary: m)
  case Nil
  then show ?case by simp
next
  case (Cons fname rest)
  show ?case
  proof (cases "fname = f")
    case True
    then show ?thesis using assms(2,3,4) by (auto simp: pcb_name_def Let_def)
  next
    case False
    with Cons.prems have "f \<in> set rest" by simp
    from Cons.IH [OF this] show ?thesis
      by (auto simp: Let_def split: sum.splits)
  qed
qed

lemma scan_pcbs_empty:
  assumes "scan_pcbs env dir names [] = Inr m'"
  shows "m' = [] \<longleftrightarrow>
           filter (\<lambda>f. is_directory env (path_string (path_append dir f)) \<and> pcb_name f) names = []"
proof -
  let ?conf = "\<lambda>f. is_directory env (path_string (path_append dir f)) \<and> pcb_name f"
  have dom: "\<And>k. map_of m' k \<noteq> None \<longleftrightarrow>
       (\<exists>fname \<in> set names. is_directory env (path_string (path_append dir fname)) \<and>
               pcb_name fname \<and> stoi (drop 3 fname) = Inr k)"
    using scan_pcbs_dom [OF assms] by simp
  show ?thesis
  proof
    assume "m' = []"
    then have none: "\<And>k. map_of m' k = None" by simp
    show "filter ?conf names = []"
    proof (rule ccontr)
      assume "filter ?conf names \<noteq> []"
      then obtain f where f: "f \<in> set names" "?conf f"
        by (metis (mono_tags, lifting) filter_False)
      with scan_pcbs_all [OF assms f(1)] obtain k where "stoi (drop 3 f) = Inr k" by auto
      with f dom [of k] none [of k] show False by auto
    qed
  next
    assume e: "filter ?conf names = []"
    have "map_of m' k = None" for k
      using dom [of k] e by (auto simp: filter_empty_conv)
    then have "map_of m' = Map.empty"
      by (simp add: fun_eq_iff)
    then show "m' = []"
      by (simp only: map_of_eq_empty_iff)
  qed
qed

lemma find_path_append:
  "map_option (path_append r) (find P xs) = Some (path_append r f) \<longleftrightarrow> find P xs = Some f"
  by (cases "find P xs") (auto simp: path_append_def)

lemmas ex_scan_simps =
  PCB_new_def PCBDataset_new_def rec_files_def pcb_dirs_def rec_name_def pcb_name_def
  spec_rid_def ex_simps

lemma parse_line_Inr:
  "parse_line env split = Inr rr \<longleftrightarrow>
     5 \<le> length split \<and>
     stof env (split ! 0) = Some (center_x rr) \<and> stof env (split ! 1) = Some (center_y rr) \<and>
     stof env (split ! 2) = Some (size_width rr) \<and>
     stof env (split ! 3) = Some (size_height rr) \<and>
     stof env (split ! 4) = Some (angle rr)"
  by (cases rr) (auto simp: parse_line_def split: option.splits)

lemma ics_line_total:
  assumes "parse_line env (boost_split line) = Inr rr"
      and "cropped \<longrightarrow> (\<exists>ci q'. cropinfo env q rec = (Inr ci, q'))"
  shows "\<exists>r q'. ics_line env rec cropped sb ab line q = (Inr r, q') \<and>
           (cropped \<longrightarrow> (\<exists>ci q''. cropinfo env q' rec = (Inr ci, q'')))"
proof (cases "cropped \<and> \<not> filtered_out sb ab rr")
  case True
  with assms(2) obtain ci q' where c: "cropinfo env q rec = (Inr ci, q')" by blast
  have "cropinfo env q' rec = (Inr ci, q')"
    by (rule cropinfo_hit [OF cropinfo_cached [OF c]])
  then show ?thesis
    using True assms(1) c by (auto simp: ics_line_def Let_def)
next
  case False
  then show ?thesis
    using assms by (auto simp: ics_line_def Let_def)
qed

lemma ics_loop_total:
  assumes "map (\<lambda>l. parse_line env (boost_split l)) lines = map Inr rrs"
      and "cropped \<longrightarrow> (\<exists>ci q'. cropinfo env q rec = (Inr ci, q'))"
  shows "\<exists>res q'. ics_loop env rec cropped sb ab lines ret q = (Inr res, q')"
  using assms
proof (induction lines arbitrary: rrs ret q)
  case Nil
  then show ?case by simp
next
  case (Cons line rest)
  from Cons.prems(1) obtain rr rrs' where
    p: "parse_line env (boost_split line) = Inr rr" and
    ps: "map (\<lambda>l. parse_line env (boost_split l)) rest = map Inr rrs'"
    by (cases rrs) auto
  from ics_line_total [OF p Cons.prems(2), of sb ab] obtain r q' where
    l: "ics_line env rec cropped sb ab line q = (Inr r, q')" and
    c: "cropped \<longrightarrow> (\<exists>ci q''. cropinfo env q' rec = (Inr ci, q''))"
    by blast
  show ?case
    using l Cons.IH [OF ps c] by (cases r) simp_all
qed

lemma ics_total:
  assumes miss: "map_of (cache_ics pcb) rec = None"
      and p: "map_of (recordings_map pcb) rec = Some p"
      and reg: "is_regular_file env (path_string (annot_path p rec))"
      and loop: "ics_loop env rec cropped sb ab (getlines env (path_string (annot_path p rec))) [] pcb
                   = (Inr res, pcb1)"
  shows "\<exists>pcb'. ics env pcb rec cropped sb ab = (Inr res, pcb')"
proof -
  have fr: "cache_ics pcb1 = cache_ics pcb"
    using ics_loop_frame [of env rec cropped sb ab
        "getlines env (path_string (annot_path p rec))" "[]" pcb] loop by simp
  have ii: "um_index [] (um_insert (cache_ics pcb1) rec res) rec =
            (res, cache_ics pcb @ [(rec, res)])"
    using um_insert_index [of "cache_ics pcb1" rec "[]" res] miss fr by simp
  show ?thesis
    using miss p reg loop
    by (simp add: ics_def um_count_1 um_count_Suc0 um_count_0 um_at_def Let_def ii)
qed

section \<open>The cache of ics\<close>

text \<open>
  C1. Once a call of \<open>ics\<close> for a recording \<open>rec\<close> has returned a list, every later call
  of \<open>ics\<close> for \<open>rec\<close> on the same PCB returns that list and leaves the PCB as it is:
  whatever the arguments \<open>cropped\<close>, \<open>size\<close> and \<open>aspect\<close>, whatever calls were made in
  between, and whatever the files hold by then (the environment \<open>env'\<close> of the later call
  is arbitrary, so the annotation file is not read again).
\<close>

theorem ics_cache_sticky:
  assumes "ics env pcb rec cropped size_b aspect_b = (Inr res, pcb')"
  shows "ics env' (run_calls calls pcb') rec cropped' size_b' aspect_b' =
           (Inr res, run_calls calls pcb')"
proof -
  have "map_of (cache_ics pcb') rec = Some res"
    by (rule ics_cached [OF assms])
  then have "map_of (cache_ics (run_calls calls pcb')) rec = Some res"
    by (rule run_calls_mono_ics)
  then show ?thesis
    by (rule ics_hit)
qed

text \<open>
  C1, on the example: the first call for recording 1 returns the three annotations;
  after \<open>imageMasked(1)\<close> and \<open>ics(2, ...)\<close>, and with all files deleted, a call with
  \<open>cropped\<close> set and with bounds that the first two annotations do not meet returns the
  same three annotations.
\<close>

theorem ics_cache_sticky_witness:
  "ics ex_fs ex_pcb 1 False (Fin 0, Fin 0) (Fin 0, Fin 0) = (Inr ex_annots, ex_pcb_read) \<and>
   ics ex_fs_deleted
     (run_calls [call_imageMasked ex_fs 1, call_ics ex_fs 2 False (Fin 0, Fin 0) (Fin 0, Fin 0)]
        ex_pcb_read)
     1 True (Fin 0.02, Fin 0) (Fin 0, Fin 3) =
   (Inr ex_annots,
    run_calls [call_imageMasked ex_fs 1, call_ics ex_fs 2 False (Fin 0, Fin 0) (Fin 0, Fin 0)]
      ex_pcb_read)"
  using ics_cache_sticky [OF ex_first_call] ex_first_call by simp

section \<open>Annot measurements\<close>

text \<open>
  C2. An Annot with scale factor 2 whose rectangle is 174.8 by 174.8 (an unscaled
  87.4 by 87.4 rectangle, one square centimetre, multiplied by 2): \<open>sizeCm2(false)\<close> is
  2, twice the size of the unscaled rectangle, because the area, which grew by the
  square of the scale factor, is divided by the scale factor once.
\<close>

theorem sizeCm2_scale2_not_unscaled:
  "sizeCm2 \<lparr>rect = \<lparr>center_x = Fin 0, center_y = Fin 0, size_width = Fin 174.8,
                     size_height = Fin 174.8, angle = Fin 0\<rparr>,
            scale = Fin 2, label_text = []\<rparr> False = Fin 2 \<and>
   fmul (fdiv (Fin 87.4) (Fin 87.4)) (fdiv (Fin 87.4) (Fin 87.4)) = Fin 1"
  by (simp add: sizeCm2_def)

section \<open>The crop rectangle\<close>

text \<open>
  C3. When the crop rectangle of \<open>rec\<close> is not cached, the mask decodes and has at least
  one contour, and \<^verbatim>\<open>std::sort\<close>, called with the comparison of the areas of the enclosing
  rectangles, returns the contours reordered so that none is followed by one of a
  smaller such area: \<open>_cropinfo\<close> returns the bounding rectangle of a contour \<open>c\<close> of the
  mask such that no contour has an enclosing rectangle of a larger area than that of
  \<open>c\<close>; if the area of one contour is larger than that of every other, \<open>c\<close> is that one.
  The result is computed once: every later call for \<open>rec\<close>, after any calls in between and
  in any environment, returns the same rectangle and leaves the PCB as it is.
\<close>

theorem cropinfo_largest_contour:
  assumes miss: "map_of (cache_cropinfo pcb) rec = None"
      and msk: "mask env pcb rec = Inr im"
      and ne: "findContours env im \<noteq> []"
      and perm: "mset (std_sort env (\<lambda>a b. flt (enclosing_area env a) (enclosing_area env b))
                         (findContours env im)) = mset (findContours env im)"
      and ord: "sorted_wrt (\<lambda>a b. \<not> flt (enclosing_area env b) (enclosing_area env a))
                  (std_sort env (\<lambda>a b. flt (enclosing_area env a) (enclosing_area env b))
                     (findContours env im))"
  shows "\<exists>c pcb'.
           c \<in> set (findContours env im) \<and>
           (\<forall>d \<in> set (findContours env im).
              \<not> flt (enclosing_area env c) (enclosing_area env d)) \<and>
           (\<forall>c' \<in> set (findContours env im).
              (\<forall>d \<in> set (findContours env im).
                 d \<noteq> c' \<longrightarrow> flt (enclosing_area env d) (enclosing_area env c')) \<longrightarrow> c = c') \<and>
           cropinfo env pcb rec = (Inr (boundingRect env c), pcb') \<and>
           (\<forall>env' calls. cropinfo env' (run_calls calls pcb') rec =
              (Inr (boundingRect env c), run_calls calls pcb'))"
proof -
  let ?cnt = "findContours env im"
  let ?lt = "\<lambda>a b. flt (enclosing_area env a) (enclosing_area env b)"
  let ?srt = "std_sort env (area_less env) ?cnt"
  let ?c = "last ?srt"
  let ?pcb' = "pcb\<lparr>cache_cropinfo := cache_cropinfo pcb @ [(rec, boundingRect env ?c)]\<rparr>"
  have srt: "?srt = std_sort env ?lt ?cnt"
    by (simp only: area_less_enclosing)
  have set_eq: "set ?srt = set ?cnt"
    using perm srt by (metis set_mset_mset)
  have sne: "?srt \<noteq> []"
    using ne set_eq by (metis set_empty)
  have c_in: "?c \<in> set ?cnt"
    using sne set_eq last_in_set by blast
  have ord': "sorted_wrt (\<lambda>a b. \<not> ?lt b a) ?srt"
    using ord srt by simp
  have irr: "\<not> ?lt ?c ?c"
    by (simp add: flt_irrefl)
  have mx: "\<not> flt (enclosing_area env ?c) (enclosing_area env d)" if "d \<in> set ?cnt" for d
    using last_sorted_wrt_max [of ?lt ?srt d, OF ord' sne _ irr] that set_eq by simp
  have uniq: "?c = c'"
    if "c' \<in> set ?cnt"
      and "\<forall>d \<in> set ?cnt. d \<noteq> c' \<longrightarrow> flt (enclosing_area env d) (enclosing_area env c')" for c'
    using that mx [of c'] c_in by blast
  have run: "cropinfo env pcb rec = (Inr (boundingRect env ?c), ?pcb')"
    by (rule cropinfo_miss [OF miss msk sne])
  have "map_of (cache_cropinfo ?pcb') rec = Some (boundingRect env ?c)"
    by (rule cropinfo_cached [OF run])
  then have later: "cropinfo env' (run_calls calls ?pcb') rec =
      (Inr (boundingRect env ?c), run_calls calls ?pcb')" for env' calls
    by (intro cropinfo_hit run_calls_mono_crop)
  show ?thesis
    using c_in mx uniq run later by blast
qed

text \<open>
  C3, on the example: the mask of recording 1 has the contours \<open>blobA\<close>, \<open>blobB\<close> and
  \<open>blobC\<close>, in this order, with enclosing rectangles of areas 100, 500 and 300; the
  crop rectangle is the bounding rectangle of \<open>blobB\<close>, also in a later call after the
  files were deleted.
\<close>

theorem cropinfo_largest_contour_witness:
  "map_of (cache_cropinfo ex_pcb) 1 = None \<and>
   mask ex_fs ex_pcb 1 = Inr \<lparr>rows = 100, cols = 100, pixels = [1]\<rparr> \<and>
   findContours ex_fs \<lparr>rows = 100, cols = 100, pixels = [1]\<rparr> = [blobA, blobB, blobC] \<and>
   map (enclosing_area ex_fs) [blobA, blobB, blobC] = [Fin 100, Fin 500, Fin 300] \<and>
   std_sort ex_fs (\<lambda>a b. flt (enclosing_area ex_fs a) (enclosing_area ex_fs b))
     [blobA, blobB, blobC] = [blobA, blobC, blobB] \<and>
   cropinfo ex_fs ex_pcb 1 =
     (Inr (boundingRect ex_fs blobB),
      ex_pcb\<lparr>cache_cropinfo := [(1, boundingRect ex_fs blobB)]\<rparr>) \<and>
   boundingRect ex_fs blobB = \<lparr>rect_x = 40, rect_y = 40, rect_width = 26, rect_height = 21\<rparr> \<and>
   cropinfo ex_fs_deleted
     (run_calls [call_ics ex_fs 1 True (Fin 0, Fin 0) (Fin 0, Fin 0)]
        (ex_pcb\<lparr>cache_cropinfo := [(1, boundingRect ex_fs blobB)]\<rparr>)) 1 =
     (Inr (boundingRect ex_fs blobB),
      run_calls [call_ics ex_fs 1 True (Fin 0, Fin 0) (Fin 0, Fin 0)]
        (ex_pcb\<lparr>cache_cropinfo := [(1, boundingRect ex_fs blobB)]\<rparr>))"
proof -
  let ?im = "\<lparr>rows = 100, cols = 100, pixels = [1]\<rparr>"
  let ?lt = "\<lambda>a b. flt (enclosing_area ex_fs a) (enclosing_area ex_fs b)"
  have h1: "map_of (cache_cropinfo ex_pcb) 1 = None"
    by (simp add: ex_pcb_def)
  have h2: "mask ex_fs ex_pcb 1 = Inr ?im"
    by (simp add: ex_simps)
  have fc: "findContours ex_fs ?im = [blobA, blobB, blobC]"
    by (simp add: ex_fs_def)
  have ar: "map (enclosing_area ex_fs) [blobA, blobB, blobC] = [Fin 100, Fin 500, Fin 300]"
    by (simp add: enclosing_area_def ex_simps)
  have st: "std_sort ex_fs ?lt [blobA, blobB, blobC] = [blobA, blobC, blobB]"
    using ar by (simp add: ex_fs_def sort_by_def)
  have h3: "findContours ex_fs ?im \<noteq> []"
    by (simp add: fc)
  have h4: "mset (std_sort ex_fs ?lt (findContours ex_fs ?im)) = mset (findContours ex_fs ?im)"
    by (simp add: fc st)
  have h5: "sorted_wrt (\<lambda>a b. \<not> ?lt b a) (std_sort ex_fs ?lt (findContours ex_fs ?im))"
    using ar by (simp add: fc st)
  have run: "cropinfo ex_fs ex_pcb 1 =
     (Inr (boundingRect ex_fs blobB),
      ex_pcb\<lparr>cache_cropinfo := [(1, boundingRect ex_fs blobB)]\<rparr>)"
    by (simp add: ex_simps)
  have br: "boundingRect ex_fs blobB =
      \<lparr>rect_x = 40, rect_y = 40, rect_width = 26, rect_height = 21\<rparr>"
    by (simp add: ex_simps)
  from cropinfo_largest_contour [OF h1 h2 h3 h4 h5] obtain c pcb' where
    first: "cropinfo ex_fs ex_pcb 1 = (Inr (boundingRect ex_fs c), pcb')" and
    later: "\<And>env' calls. cropinfo env' (run_calls calls pcb') 1 =
              (Inr (boundingRect ex_fs c), run_calls calls pcb')"
    by blast
  note eq = trans [OF first [symmetric] run]
  have c: "boundingRect ex_fs c = boundingRect ex_fs blobB"
    using eq by (simp only: prod.inject sum.inject)
  have p: "pcb' = ex_pcb\<lparr>cache_cropinfo := [(1, boundingRect ex_fs blobB)]\<rparr>"
    using eq by (simp only: prod.inject sum.inject)
  note l = later [of ex_fs_deleted "[call_ics ex_fs 1 True (Fin 0, Fin 0) (Fin 0, Fin 0)]",
      unfolded c p]
  show ?thesis
    by (intro conjI h1 h2 fc ar st run br l)
qed

text \<open>
  C4. The mask of recording 2 decodes and has no contour: \<open>_cropinfo\<close> throws no
  exception, it reads the empty vector of contours at index \<^verbatim>\<open>size() - 1\<close>; so do
  \<open>imageMasked\<close> and \<open>ics\<close> with \<open>cropped\<close> set, on a file with an annotation.
\<close>

theorem cropinfo_no_contours:
  "mask ex_fs ex_pcb 2 = Inr \<lparr>rows = 100, cols = 100, pixels = [0]\<rparr> \<and>
   findContours ex_fs \<lparr>rows = 100, cols = 100, pixels = [0]\<rparr> = [] \<and>
   cropinfo ex_fs ex_pcb 2 = (Inl undefined_behaviour, ex_pcb) \<and>
   imageMasked ex_fs ex_pcb 2 = (Inl undefined_behaviour, ex_pcb) \<and>
   ics ex_fs ex_pcb 2 True (Fin 0, Fin 0) (Fin 0, Fin 0) = (Inl undefined_behaviour, ex_pcb)"
  by (simp add: ex_simps)

section \<open>The filters of ics\<close>

text \<open>
  C5. In a call of \<open>ics\<close> for a recording that is not cached, when it returns: every line
  of the annotation file parses, and the list returned holds, in the order of the file,
  one Annot for each line that the filter rule of the specification does not reject
  (the size in square centimetres and the aspect ratio being those of the parsed,
  unscaled rectangle); with the bounds (0,0) and (0,0) it holds one Annot for every
  line.
\<close>

theorem ics_filter_rule:
  assumes "map_of (cache_ics pcb) rec = None"
      and "ics env pcb rec cropped size_b aspect_b = (Inr res, pcb')"
  shows "\<exists>p rrs.
           map_of (recordings_map pcb) rec = Some p \<and>
           map (\<lambda>l. parse_line env (boost_split l)) (getlines env (path_string (annot_path p rec)))
             = map Inr rrs \<and>
           res = map (\<lambda>(l, rr). finish_annot (pcb_scale pcb)
                        (if cropped then map_of (cache_cropinfo pcb') rec else None) l rr)
                   (filter (\<lambda>(l, rr). \<not> spec_rejected size_b aspect_b rr)
                      (zip (getlines env (path_string (annot_path p rec))) rrs)) \<and>
           (size_b = (Fin 0, Fin 0) \<and> aspect_b = (Fin 0, Fin 0) \<longrightarrow>
              length res = length (getlines env (path_string (annot_path p rec))))"
proof -
  from ics_result [OF assms] obtain p rrs where
    p: "map_of (recordings_map pcb) rec = Some p" and
    m: "map (\<lambda>l. parse_line env (boost_split l)) (getlines env (path_string (annot_path p rec)))
          = map Inr rrs" and
    r: "res = map (\<lambda>(l, rr). finish_annot (pcb_scale pcb)
                        (if cropped then map_of (cache_cropinfo pcb') rec else None) l rr)
                   (filter (\<lambda>(l, rr). \<not> filtered_out size_b aspect_b rr)
                      (zip (getlines env (path_string (annot_path p rec))) rrs))"
    by blast
  let ?lines = "getlines env (path_string (annot_path p rec))"
  from m have len: "length rrs = length ?lines"
    using length_map by metis
  have all: "length res = length ?lines" if "size_b = (Fin 0, Fin 0)" "aspect_b = (Fin 0, Fin 0)"
  proof -
    have "filter (\<lambda>(l, rr). \<not> filtered_out size_b aspect_b rr) (zip ?lines rrs) = zip ?lines rrs"
      using that by (simp add: filtered_out_def fgt_zero_zero)
    then show ?thesis using r len by simp
  qed
  show ?thesis
    using p m r all by (intro exI [of _ p] exI [of _ rrs]) (simp add: filtered_out_spec)
qed

text \<open>
  C5, on the example: with a minimal size of 0.02 square centimetres and a maximal
  aspect ratio of 3, the rule rejects the first two rectangles of recording 1 and
  \<open>ics\<close> returns the third annotation alone (cropped).
\<close>

theorem ics_filter_rule_witness:
  "map_of (cache_ics ex_pcb) 1 = None \<and>
   ics ex_fs ex_pcb 1 True (Fin 0.02, Fin 0) (Fin 0, Fin 3) =
     (Inr [\<lparr>rect = \<lparr>center_x = Fin 30, center_y = Fin 30, size_width = Fin 40,
                     size_height = Fin 20, angle = Fin 90\<rparr>,
            scale = Fin 1, label_text = ''IC2 ''\<rparr>],
      ex_pcb\<lparr>cache_cropinfo := [(1, \<lparr>rect_x = 40, rect_y = 40, rect_width = 26, rect_height = 21\<rparr>)],
             cache_ics := [(1, [\<lparr>rect = \<lparr>center_x = Fin 30, center_y = Fin 30, size_width = Fin 40,
                     size_height = Fin 20, angle = Fin 90\<rparr>,
            scale = Fin 1, label_text = ''IC2 ''\<rparr>])]\<rparr>) \<and>
   map (spec_rejected (Fin 0.02, Fin 0) (Fin 0, Fin 3))
     [\<lparr>center_x = Fin 50, center_y = Fin 50, size_width = Fin 10, size_height = Fin 10, angle = Fin 0\<rparr>,
      \<lparr>center_x = Fin 20, center_y = Fin 30, size_width = Fin 0, size_height = Fin 10, angle = Fin 0\<rparr>,
      \<lparr>center_x = Fin 70, center_y = Fin 70, size_width = Fin 40, size_height = Fin 20, angle = Fin 90\<rparr>]
     = [True, True, False]"
proof -
  have h1: "map_of (cache_ics ex_pcb) 1 = None"
    by (simp add: ex_pcb_def)
  have h2: "ics ex_fs ex_pcb 1 True (Fin 0.02, Fin 0) (Fin 0, Fin 3) =
     (Inr [\<lparr>rect = \<lparr>center_x = Fin 30, center_y = Fin 30, size_width = Fin 40,
                     size_height = Fin 20, angle = Fin 90\<rparr>,
            scale = Fin 1, label_text = ''IC2 ''\<rparr>],
      ex_pcb\<lparr>cache_cropinfo := [(1, \<lparr>rect_x = 40, rect_y = 40, rect_width = 26, rect_height = 21\<rparr>)],
             cache_ics := [(1, [\<lparr>rect = \<lparr>center_x = Fin 30, center_y = Fin 30, size_width = Fin 40,
                     size_height = Fin 20, angle = Fin 90\<rparr>,
            scale = Fin 1, label_text = ''IC2 ''\<rparr>])]\<rparr>)"
    by (simp add: ex_simps)
  have h3: "map (spec_rejected (Fin 0.02, Fin 0) (Fin 0, Fin 3))
     [\<lparr>center_x = Fin 50, center_y = Fin 50, size_width = Fin 10, size_height = Fin 10, angle = Fin 0\<rparr>,
      \<lparr>center_x = Fin 20, center_y = Fin 30, size_width = Fin 0, size_height = Fin 10, angle = Fin 0\<rparr>,
      \<lparr>center_x = Fin 70, center_y = Fin 70, size_width = Fin 40, size_height = Fin 20, angle = Fin 90\<rparr>]
     = [True, True, False]"
    by (simp add: spec_rejected_def spec_size_cm2_def spec_aspect_def std_max_def std_min_def fgt_def)
  show ?thesis
    using ics_filter_rule [OF h1 h2] h1 h2 h3 by simp
qed

text \<open>
  C6 as the code has it. \<open>ics\<close> does not look at the sign of a width or a height. A line
  parses exactly when it has at least 5 tokens and \<^verbatim>\<open>std::stof\<close> returns on each of the
  first five. In a call for a recording that is registered and not cached, whose
  annotation file exists and whose lines all parse (and, with \<open>cropped\<close> set, whose crop
  rectangle can be computed), \<open>ics\<close> returns, and the widths and heights of the Annots
  returned are those parsed from the lines that passed the filters, multiplied by the
  scale factor when it is not 1.
\<close>

theorem ics_sizes_unchecked:
  assumes miss: "map_of (cache_ics pcb) rec = None"
      and p: "map_of (recordings_map pcb) rec = Some p"
      and reg: "is_regular_file env (path_string (annot_path p rec))"
      and parse: "map (\<lambda>l. parse_line env (boost_split l))
                    (getlines env (path_string (annot_path p rec))) = map Inr rrs"
      and crop: "cropped \<longrightarrow> (\<exists>ci q. cropinfo env pcb rec = (Inr ci, q))"
  shows "(\<exists>res pcb'.
            ics env pcb rec cropped size_b aspect_b = (Inr res, pcb') \<and>
            map (\<lambda>a. (size_width (rect a), size_height (rect a))) res =
              map (\<lambda>rr. (if pcb_scale pcb \<noteq> Fin 1
                          then fmul (size_width rr) (pcb_scale pcb) else size_width rr,
                          if pcb_scale pcb \<noteq> Fin 1
                          then fmul (size_height rr) (pcb_scale pcb) else size_height rr))
                (filter (\<lambda>rr. \<not> filtered_out size_b aspect_b rr) rrs)) \<and>
         (\<forall>split rr. parse_line env split = Inr rr \<longleftrightarrow>
            5 \<le> length split \<and>
            stof env (split ! 0) = Some (center_x rr) \<and>
            stof env (split ! 1) = Some (center_y rr) \<and>
            stof env (split ! 2) = Some (size_width rr) \<and>
            stof env (split ! 3) = Some (size_height rr) \<and>
            stof env (split ! 4) = Some (angle rr))"
proof -
  let ?lines = "getlines env (path_string (annot_path p rec))"
  let ?ok = "\<lambda>rr. \<not> filtered_out size_b aspect_b rr"
  from ics_loop_total [OF parse crop, of size_b aspect_b "[]"] obtain res pcb1 where
    loop: "ics_loop env rec cropped size_b aspect_b ?lines [] pcb = (Inr res, pcb1)"
    by blast
  from ics_total [OF miss p reg loop] obtain pcb' where
    run: "ics env pcb rec cropped size_b aspect_b = (Inr res, pcb')"
    by blast
  from ics_loop_result [OF loop] obtain rrs' where
    m: "map (\<lambda>l. parse_line env (boost_split l)) ?lines = map Inr rrs'" and
    r: "res = map (\<lambda>(l, rr). finish_annot (pcb_scale pcb)
                        (if cropped then map_of (cache_cropinfo pcb1) rec else None) l rr)
                   (filter (\<lambda>(l, rr). ?ok rr) (zip ?lines rrs'))"
    by auto
  from m parse have "map Inr rrs' = (map Inr rrs :: (error + RotatedRect) list)"
    by simp
  then have same: "rrs' = rrs"
    by (simp add: inj_map_eq_map)
  from parse have len: "length ?lines = length rrs"
    using length_map by metis
  have snd_f: "map snd (filter (\<lambda>(l, rr). ?ok rr) (zip ?lines rrs)) = filter ?ok rrs"
    by (rule map_snd_filter_zip [OF len])
  have sz: "size_width (rect (finish_annot sc ci l rr)) =
              (if sc \<noteq> Fin 1 then fmul (size_width rr) sc else size_width rr) \<and>
            size_height (rect (finish_annot sc ci l rr)) =
              (if sc \<noteq> Fin 1 then fmul (size_height rr) sc else size_height rr)" for sc ci l rr
    by (cases ci) (simp_all add: finish_annot_def crop_rect_def scale_rect_def)
  have w: "map (\<lambda>a. (size_width (rect a), size_height (rect a))) res =
           map (\<lambda>rr. (if pcb_scale pcb \<noteq> Fin 1
                          then fmul (size_width rr) (pcb_scale pcb) else size_width rr,
                          if pcb_scale pcb \<noteq> Fin 1
                          then fmul (size_height rr) (pcb_scale pcb) else size_height rr))
             (filter ?ok rrs)"
    unfolding r same snd_f [symmetric]
    by (simp add: sz case_prod_beta comp_def)
  show ?thesis
    using run w parse_line_Inr by blast
qed

text \<open>
  C6, on the example at scale 2, with \<open>cropped\<close> set: the widths 10, 0 and 40 of the
  file are returned as 20, 0 and 80.
\<close>

theorem ics_sizes_unchecked_witness:
  "map_of (cache_ics (ex_pcb\<lparr>pcb_scale := Fin 2\<rparr>)) 1 = None \<and>
   map_of (recordings_map (ex_pcb\<lparr>pcb_scale := Fin 2\<rparr>)) 1 =
     Some \<lparr>parent_path = ''/data/pcb1'', filename = ''rec1.jpg''\<rparr> \<and>
   path_string (annot_path \<lparr>parent_path = ''/data/pcb1'', filename = ''rec1.jpg''\<rparr> 1) =
     ''/data/pcb1/rec1-annot.txt'' \<and>
   is_regular_file ex_fs ''/data/pcb1/rec1-annot.txt'' \<and>
   map (\<lambda>l. parse_line ex_fs (boost_split l)) (getlines ex_fs ''/data/pcb1/rec1-annot.txt'') =
     map Inr (map rect ex_annots) \<and>
   fst (cropinfo ex_fs (ex_pcb\<lparr>pcb_scale := Fin 2\<rparr>) 1) =
     Inr \<lparr>rect_x = 40, rect_y = 40, rect_width = 26, rect_height = 21\<rparr> \<and>
   (\<exists>res pcb'.
      ics ex_fs (ex_pcb\<lparr>pcb_scale := Fin 2\<rparr>) 1 True (Fin 0, Fin 0) (Fin 0, Fin 0) =
        (Inr res, pcb') \<and>
      map (\<lambda>a. (size_width (rect a), size_height (rect a))) res =
        [(Fin 20, Fin 20), (Fin 0, Fin 20), (Fin 80, Fin 40)])"
proof -
  let ?pcb = "ex_pcb\<lparr>pcb_scale := Fin 2\<rparr>"
  let ?p = "\<lparr>parent_path = ''/data/pcb1'', filename = ''rec1.jpg''\<rparr>"
  have h1: "map_of (cache_ics ?pcb) 1 = None"
    by (simp add: ex_pcb_def)
  have h2: "map_of (recordings_map ?pcb) 1 = Some ?p"
    by (simp add: ex_pcb_def)
  have ps: "path_string (annot_path ?p 1) = ''/data/pcb1/rec1-annot.txt''"
    by (simp add: ex_simps)
  have rg: "is_regular_file ex_fs ''/data/pcb1/rec1-annot.txt''"
    by (simp add: ex_simps)
  have pl: "map (\<lambda>l. parse_line ex_fs (boost_split l)) (getlines ex_fs ''/data/pcb1/rec1-annot.txt'') =
     map Inr (map rect ex_annots)"
    by (simp add: ex_simps)
  have cr: "fst (cropinfo ex_fs ?pcb 1) =
      Inr \<lparr>rect_x = 40, rect_y = 40, rect_width = 26, rect_height = 21\<rparr>"
    by (simp add: ex_simps)
  have h5: "True \<longrightarrow> (\<exists>ci q. cropinfo ex_fs ?pcb 1 = (Inr ci, q))"
    using cr by (cases "cropinfo ex_fs ?pcb 1") auto
  have fo: "filter (\<lambda>rr. \<not> filtered_out (Fin 0, Fin 0) (Fin 0, Fin 0) rr) (map rect ex_annots) =
      map rect ex_annots"
    by (simp add: filtered_out_def fgt_def)
  from ics_sizes_unchecked [of ?pcb 1 ?p ex_fs "map rect ex_annots" True
      "(Fin 0, Fin 0)" "(Fin 0, Fin 0)", OF h1 h2 rg [folded ps] pl [folded ps] h5]
  obtain res pcb' where
    run: "ics ex_fs ?pcb 1 True (Fin 0, Fin 0) (Fin 0, Fin 0) = (Inr res, pcb')" and
    sz: "map (\<lambda>a. (size_width (rect a), size_height (rect a))) res =
              map (\<lambda>rr. (if pcb_scale ?pcb \<noteq> Fin 1
                          then fmul (size_width rr) (pcb_scale ?pcb) else size_width rr,
                          if pcb_scale ?pcb \<noteq> Fin 1
                          then fmul (size_height rr) (pcb_scale ?pcb) else size_height rr))
                (filter (\<lambda>rr. \<not> filtered_out (Fin 0, Fin 0) (Fin 0, Fin 0) rr)
                   (map rect ex_annots))"
    by blast
  have szv: "map (\<lambda>a. (size_width (rect a), size_height (rect a))) res =
        [(Fin 20, Fin 20), (Fin 0, Fin 20), (Fin 80, Fin 40)]"
    unfolding sz fo by (simp add: ex_annots_def)
  have ex: "\<exists>res pcb'.
      ics ex_fs ?pcb 1 True (Fin 0, Fin 0) (Fin 0, Fin 0) = (Inr res, pcb') \<and>
      map (\<lambda>a. (size_width (rect a), size_height (rect a))) res =
        [(Fin 20, Fin 20), (Fin 0, Fin 20), (Fin 80, Fin 40)]"
    by (rule exI [of _ res], rule exI [of _ pcb'], rule conjI [OF run szv])
  show ?thesis
    by (intro conjI h1 h2 ps rg pl cr ex)
qed

text \<open>
  C6 as stated fails: the second line of the annotation file of recording 1 has the
  width 0; \<open>ics\<close> returns, and the second Annot has the width 0.
\<close>

theorem ics_zero_width_counterexample:
  "getlines ex_fs ''/data/pcb1/rec1-annot.txt'' ! 1 = ''20 30 0 10 0 U1'' \<and>
   stof ex_fs (boost_split ''20 30 0 10 0 U1'' ! 2) = Some (Fin 0) \<and>
   ics ex_fs ex_pcb 1 False (Fin 0, Fin 0) (Fin 0, Fin 0) = (Inr ex_annots, ex_pcb_read) \<and>
   size_width (rect (ex_annots ! 1)) = Fin 0 \<and>
   \<not> flt (Fin 0) (size_width (rect (ex_annots ! 1)))"
  by (simp add: ex_simps)

text \<open>
  C7. The third line of the annotation file of recording 1 ends with a space, so its
  last token is empty: the label of the Annot is \<^verbatim>\<open>"IC2 "\<close>, with a space at its end.
\<close>

theorem label_trailing_space:
  "boost_split ''70 70 40 20 90 IC2 '' = [''70'', ''70'', ''40'', ''20'', ''90'', ''IC2'', ''''] \<and>
   label_loop (boost_split ''70 70 40 20 90 IC2 '') 5 [] = ''IC2 '' \<and>
   fst (ics ex_fs ex_pcb 1 False (Fin 0, Fin 0) (Fin 0, Fin 0)) = Inr ex_annots \<and>
   map label_text ex_annots = [''R1 0402'', ''U1'', ''IC2 '']"
  by (simp add: ex_simps)

section \<open>Directory scans\<close>

text \<open>
  C8 as the code has it. Let the PCB directories of the root be its entries that are
  directories with a name longer than 3 characters that starts with \<^verbatim>\<open>pcb\<close>, in the order
  of the iteration. The construction of a data set returns exactly when the root is a
  directory whose path does not end with a slash, \<^verbatim>\<open>std::stoi\<close> returns on the rest of
  the name of every PCB directory, and there is at least one. Then the path registered
  under a key \<open>k\<close> is that of the first PCB directory for which \<^verbatim>\<open>std::stoi\<close> gives \<open>k\<close> on
  the rest of its name, and no path when there is none: a PCB directory is registered
  exactly when it is the first with its key. \<^verbatim>\<open>std::stoi\<close> reads the leading digits and
  ignores what follows them.
\<close>

theorem PCBDataset_registers:
  "((\<exists>d. PCBDataset_new env r = Inr d) \<longleftrightarrow>
      is_directory env r \<and> r \<noteq> [] \<and> last r \<noteq> CHR ''/'' \<and>
      (\<forall>f \<in> set (pcb_dirs env r). \<exists>k. stoi (drop 3 f) = Inr k) \<and>
      pcb_dirs env r \<noteq> []) \<and>
   (\<forall>d. PCBDataset_new env r = Inr d \<longrightarrow>
      (\<forall>k. map_of (pcbPaths d) k =
             map_option (path_append r)
               (find (\<lambda>f. stoi (drop 3 f) = Inr k) (pcb_dirs env r))) \<and>
      (\<forall>f. (\<exists>k. map_of (pcbPaths d) k = Some (path_append r f)) \<longleftrightarrow>
             (\<exists>k. find (\<lambda>g. stoi (drop 3 g) = Inr k) (pcb_dirs env r) = Some f))) \<and>
   (\<forall>f. f \<in> set (pcb_dirs env r) \<longleftrightarrow>
      f \<in> set (directory_iterator env r) \<and>
      is_directory env (path_string (path_append r f)) \<and>
      3 < length f \<and> take 3 f = ''pcb'') \<and>
   (\<forall>ds rest. ds \<noteq> [] \<and> (\<forall>c \<in> set ds. isdigit c) \<and> (rest = [] \<or> \<not> isdigit (hd rest)) \<and>
      digits_value ds \<le> 2147483647 \<longrightarrow>
      stoi (ds @ rest) = Inr (int (digits_value ds)))"
proof -
  let ?names = "directory_iterator env r"
  let ?valid = "is_directory env r \<and> r \<noteq> [] \<and> last r \<noteq> CHR ''/''"
  have mem: "f \<in> set (pcb_dirs env r) \<longleftrightarrow>
      f \<in> set ?names \<and> is_directory env (path_string (path_append r f)) \<and>
      3 < length f \<and> take 3 f = ''pcb''" for f
    by (auto simp: pcb_dirs_def pcb_name_def)
  have unfold: "PCBDataset_new env r = Inr d \<longleftrightarrow>
      ?valid \<and> (\<exists>m. scan_pcbs env r ?names [] = Inr m \<and> m \<noteq> [] \<and>
         d = \<lparr>dataset_root = r, pcbPaths = m\<rparr>)" for d
    by (auto simp: PCBDataset_new_def last_char_def split: sum.splits)
  have ne: "scan_pcbs env r ?names [] = Inr m \<Longrightarrow> m \<noteq> [] \<longleftrightarrow> pcb_dirs env r \<noteq> []" for m
    using scan_pcbs_empty [of env r ?names m] by (simp add: pcb_dirs_def)
  have scan: "scan_pcbs env r ?names [] = Inr m \<Longrightarrow>
      map_of m k = map_option (path_append r)
        (find (\<lambda>f. stoi (drop 3 f) = Inr k) (pcb_dirs env r))" for m k
  proof -
    assume s: "scan_pcbs env r ?names [] = Inr m"
    have "\<forall>f \<in> set (filter (\<lambda>f. is_directory env (path_string (path_append r f)) \<and>
              pcb_name f) ?names). \<exists>k. stoi (drop 3 f) = Inr k"
      using scan_pcbs_all [OF s] by auto
    from scan_pcbs_find [OF this, of "[]"] s show ?thesis
      by (auto simp: pcb_dirs_def)
  qed
  have a: "(\<exists>d. PCBDataset_new env r = Inr d) \<longleftrightarrow>
      ?valid \<and> (\<forall>f \<in> set (pcb_dirs env r). \<exists>k. stoi (drop 3 f) = Inr k) \<and>
      pcb_dirs env r \<noteq> []"
  proof
    assume "\<exists>d. PCBDataset_new env r = Inr d"
    then obtain m where v: ?valid and s: "scan_pcbs env r ?names [] = Inr m" and m: "m \<noteq> []"
      using unfold by blast
    have "\<exists>k. stoi (drop 3 f) = Inr k" if "f \<in> set (pcb_dirs env r)" for f
      using scan_pcbs_all [OF s, of f] that by (auto simp: pcb_dirs_def)
    with v m ne [OF s]
    show "?valid \<and> (\<forall>f \<in> set (pcb_dirs env r). \<exists>k. stoi (drop 3 f) = Inr k) \<and>
      pcb_dirs env r \<noteq> []"
      by blast
  next
    assume h: "?valid \<and> (\<forall>f \<in> set (pcb_dirs env r). \<exists>k. stoi (drop 3 f) = Inr k) \<and>
      pcb_dirs env r \<noteq> []"
    then have "\<forall>f \<in> set (filter (\<lambda>f. is_directory env (path_string (path_append r f)) \<and>
              pcb_name f) ?names). \<exists>k. stoi (drop 3 f) = Inr k"
      by (simp add: pcb_dirs_def)
    from scan_pcbs_find [OF this, of "[]"] obtain m where
      s: "scan_pcbs env r ?names [] = Inr m" by blast
    with h ne [OF s] unfold show "\<exists>d. PCBDataset_new env r = Inr d" by blast
  qed
  have b: "map_of (pcbPaths d) k =
             map_option (path_append r) (find (\<lambda>f. stoi (drop 3 f) = Inr k) (pcb_dirs env r))"
    if "PCBDataset_new env r = Inr d" for d k
    using that unfold [of d] scan by auto
  have c: "(\<exists>k. map_of (pcbPaths d) k = Some (path_append r f)) \<longleftrightarrow>
             (\<exists>k. find (\<lambda>g. stoi (drop 3 g) = Inr k) (pcb_dirs env r) = Some f)"
    if "PCBDataset_new env r = Inr d" for d f
    by (simp only: b [OF that] find_path_append)
  show ?thesis
    using a b c mem stoi_leading_digits by blast
qed

text \<open>
  C8, on the example: in \<^verbatim>\<open>/data\<close>, with the directories \<^verbatim>\<open>pcb1\<close> and \<^verbatim>\<open>pcb12x\<close>, the
  directory \<^verbatim>\<open>pcb12x\<close> is registered under 12; in \<^verbatim>\<open>/data2\<close>, with \<^verbatim>\<open>pcb12\<close> and \<^verbatim>\<open>pcb12x\<close>
  in this order, \<^verbatim>\<open>pcb12\<close> alone is registered.
\<close>

theorem PCBDataset_registers_witness:
  "pcb_dirs ex_fs ''/data'' = [''pcb1'', ''pcb12x''] \<and>
   (\<exists>d. PCBDataset_new ex_fs ''/data'' = Inr d \<and>
        (\<forall>k. map_of (pcbPaths d) k =
           map_option (path_append ''/data'')
             (find (\<lambda>f. stoi (drop 3 f) = Inr k) [''pcb1'', ''pcb12x''])) \<and>
        map_of (pcbPaths d) 12 = Some \<lparr>parent_path = ''/data'', filename = ''pcb12x''\<rparr>) \<and>
   pcb_dirs ex_fs ''/data2'' = [''pcb12'', ''pcb12x''] \<and>
   PCBDataset_new ex_fs ''/data2'' =
     Inr \<lparr>dataset_root = ''/data2'',
          pcbPaths = [(12, \<lparr>parent_path = ''/data2'', filename = ''pcb12''\<rparr>)]\<rparr> \<and>
   stoi (''12'' @ ''x'') = Inr 12"
proof -
  obtain d where d: "PCBDataset_new ex_fs ''/data'' = Inr d"
    by (simp add: ex_scan_simps)
  have pd: "pcb_dirs ex_fs ''/data'' = [''pcb1'', ''pcb12x'']"
    by (simp add: ex_scan_simps)
  note t = PCBDataset_registers [of ex_fs "''/data''"]
  from t d have b0: "\<forall>k. map_of (pcbPaths d) k =
      map_option (path_append ''/data'')
        (find (\<lambda>f. stoi (drop 3 f) = Inr k) (pcb_dirs ex_fs ''/data''))"
    by blast
  note b = b0 [unfolded pd]
  have c: "map_of (pcbPaths d) 12 = Some \<lparr>parent_path = ''/data'', filename = ''pcb12x''\<rparr>"
    using d by (auto simp: ex_scan_simps)
  have pd2: "pcb_dirs ex_fs ''/data2'' = [''pcb12'', ''pcb12x'']"
    by (simp add: ex_scan_simps)
  have d2: "PCBDataset_new ex_fs ''/data2'' =
     Inr \<lparr>dataset_root = ''/data2'',
          pcbPaths = [(12, \<lparr>parent_path = ''/data2'', filename = ''pcb12''\<rparr>)]\<rparr>"
    by (simp add: ex_scan_simps)
  have s: "stoi (''12'' @ ''x'') = Inr 12"
    by (simp add: ex_simps)
  from d b c have ex: "\<exists>d. PCBDataset_new ex_fs ''/data'' = Inr d \<and>
        (\<forall>k. map_of (pcbPaths d) k =
           map_option (path_append ''/data'')
             (find (\<lambda>f. stoi (drop 3 f) = Inr k) [''pcb1'', ''pcb12x''])) \<and>
        map_of (pcbPaths d) 12 = Some \<lparr>parent_path = ''/data'', filename = ''pcb12x''\<rparr>"
    by blast
  show ?thesis
    by (intro conjI pd ex pd2 d2 s)
qed

text \<open>
  C8 as stated fails: the directory \<^verbatim>\<open>pcb12x\<close> is not skipped, it is registered under
  the key 12.
\<close>

theorem PCBDataset_suffix_counterexample:
  "is_directory ex_fs ''/data/pcb12x'' \<and>
   stoi (drop 3 ''pcb12x'') = Inr 12 \<and>
   PCBDataset_new ex_fs ''/data'' =
     Inr \<lparr>dataset_root = ''/data'',
          pcbPaths = [(1, \<lparr>parent_path = ''/data'', filename = ''pcb1''\<rparr>),
                      (12, \<lparr>parent_path = ''/data'', filename = ''pcb12x''\<rparr>)]\<rparr>"
  by (simp add: ex_scan_simps)

text \<open>
  C9 as the code has it. Let the recording files of the root be its entries that are
  regular files with a name longer than 7 characters that starts with \<^verbatim>\<open>rec\<close> and ends
  with \<^verbatim>\<open>.jpg\<close>, in the order of the iteration. The construction of a PCB returns
  exactly when the root is a directory whose path does not end with a slash, the scale
  passes its test, and \<^verbatim>\<open>std::stoi\<close> returns on the part between \<^verbatim>\<open>rec\<close> and \<^verbatim>\<open>.jpg\<close> of
  the name of every recording file. Then the path registered under an ID \<open>k\<close> is that of
  the first recording file for which \<^verbatim>\<open>std::stoi\<close> gives \<open>k\<close> on that part, and no path
  when there is none: a file is registered exactly when it is the first recording file
  with its ID, and a file named \<^verbatim>\<open>rec.jpg\<close> never is. \<^verbatim>\<open>std::stoi\<close> reads the leading
  digits and ignores what follows them.
\<close>

theorem PCB_registers:
  "((\<exists>pcb. PCB_new env r sc = Inr pcb) \<longleftrightarrow>
      is_directory env r \<and> r \<noteq> [] \<and> last r \<noteq> CHR ''/'' \<and>
      \<not> fle sc (Fin 0) \<and> \<not> fgt sc (Fin 2) \<and>
      (\<forall>f \<in> set (rec_files env r). \<exists>k. stoi (spec_rid f) = Inr k)) \<and>
   (\<forall>pcb. PCB_new env r sc = Inr pcb \<longrightarrow>
      (\<forall>k. map_of (recordings_map pcb) k =
             map_option (path_append r)
               (find (\<lambda>f. stoi (spec_rid f) = Inr k) (rec_files env r))) \<and>
      (\<forall>f. (\<exists>k. map_of (recordings_map pcb) k = Some (path_append r f)) \<longleftrightarrow>
             (\<exists>k. find (\<lambda>g. stoi (spec_rid g) = Inr k) (rec_files env r) = Some f)) \<and>
      (\<forall>k p. map_of (recordings_map pcb) k = Some p \<longrightarrow> filename p \<noteq> ''rec.jpg'')) \<and>
   (\<forall>f. f \<in> set (rec_files env r) \<longleftrightarrow>
      f \<in> set (directory_iterator env r) \<and>
      is_regular_file env (path_string (path_append r f)) \<and>
      7 < length f \<and> take 3 f = ''rec'' \<and> drop (length f - 4) f = ''.jpg'') \<and>
   (\<forall>ds rest. ds \<noteq> [] \<and> (\<forall>c \<in> set ds. isdigit c) \<and> (rest = [] \<or> \<not> isdigit (hd rest)) \<and>
      digits_value ds \<le> 2147483647 \<longrightarrow>
      stoi (ds @ rest) = Inr (int (digits_value ds)))"
proof -
  let ?names = "directory_iterator env r"
  let ?valid = "is_directory env r \<and> r \<noteq> [] \<and> last r \<noteq> CHR ''/'' \<and>
      \<not> fle sc (Fin 0) \<and> \<not> fgt sc (Fin 2)"
  have mem: "f \<in> set (rec_files env r) \<longleftrightarrow>
      f \<in> set ?names \<and> is_regular_file env (path_string (path_append r f)) \<and>
      7 < length f \<and> take 3 f = ''rec'' \<and> drop (length f - 4) f = ''.jpg''" for f
    by (auto simp: rec_files_def rec_name_def)
  have unfold: "PCB_new env r sc = Inr pcb \<longleftrightarrow>
      ?valid \<and> (\<exists>m. scan_recordings env r ?names [] = Inr m \<and>
         pcb = \<lparr>pcb_root = r, pcb_scale = sc, recordings_map = m,
                 cache_cropinfo = [], cache_ics = []\<rparr>)" for pcb
    by (auto simp: PCB_new_def last_char_def split: sum.splits)
  have scan: "scan_recordings env r ?names [] = Inr m \<Longrightarrow>
      map_of m k = map_option (path_append r)
        (find (\<lambda>f. stoi (spec_rid f) = Inr k) (rec_files env r))" for m k
  proof -
    assume s: "scan_recordings env r ?names [] = Inr m"
    have "\<forall>f \<in> set (filter (\<lambda>f. is_regular_file env (path_string (path_append r f)) \<and>
              rec_name f) ?names). \<exists>k. stoi (spec_rid f) = Inr k"
      using scan_recordings_all [OF s] by auto
    from scan_recordings_find [OF this, of "[]"] s show ?thesis
      by (auto simp: rec_files_def)
  qed
  have a: "(\<exists>pcb. PCB_new env r sc = Inr pcb) \<longleftrightarrow>
      ?valid \<and> (\<forall>f \<in> set (rec_files env r). \<exists>k. stoi (spec_rid f) = Inr k)"
  proof
    assume "\<exists>pcb. PCB_new env r sc = Inr pcb"
    then obtain m where v: ?valid and s: "scan_recordings env r ?names [] = Inr m"
      using unfold by blast
    have "\<exists>k. stoi (spec_rid f) = Inr k" if "f \<in> set (rec_files env r)" for f
      using scan_recordings_all [OF s, of f] that by (auto simp: rec_files_def)
    with v show "?valid \<and> (\<forall>f \<in> set (rec_files env r). \<exists>k. stoi (spec_rid f) = Inr k)"
      by blast
  next
    assume h: "?valid \<and> (\<forall>f \<in> set (rec_files env r). \<exists>k. stoi (spec_rid f) = Inr k)"
    then have "\<forall>f \<in> set (filter (\<lambda>f. is_regular_file env (path_string (path_append r f)) \<and>
              rec_name f) ?names). \<exists>k. stoi (spec_rid f) = Inr k"
      by (simp add: rec_files_def)
    from scan_recordings_find [OF this, of "[]"] obtain m where
      "scan_recordings env r ?names [] = Inr m" by blast
    with h unfold show "\<exists>pcb. PCB_new env r sc = Inr pcb" by blast
  qed
  have b: "map_of (recordings_map pcb) k =
             map_option (path_append r)
               (find (\<lambda>f. stoi (spec_rid f) = Inr k) (rec_files env r))"
    if "PCB_new env r sc = Inr pcb" for pcb k
    using that unfold [of pcb] scan by auto
  have c: "(\<exists>k. map_of (recordings_map pcb) k = Some (path_append r f)) \<longleftrightarrow>
             (\<exists>k. find (\<lambda>g. stoi (spec_rid g) = Inr k) (rec_files env r) = Some f)"
    if "PCB_new env r sc = Inr pcb" for pcb f
    by (simp only: b [OF that] find_path_append)
  have d: "filename p \<noteq> ''rec.jpg''"
    if "PCB_new env r sc = Inr pcb" and "map_of (recordings_map pcb) k = Some p" for pcb k p
  proof -
    from that b [OF that(1), of k] obtain f where
      f: "find (\<lambda>f. stoi (spec_rid f) = Inr k) (rec_files env r) = Some f"
      and p: "p = path_append r f" by auto
    from f have "f \<in> set (rec_files env r)"
      by (auto simp: find_Some_iff)
    with mem [of f] p show ?thesis
      by (auto simp: path_append_def)
  qed
  show ?thesis
    using a b c d mem stoi_leading_digits by blast
qed

text \<open>
  C9, on the example: in \<^verbatim>\<open>/data/pcb1\<close> the file \<^verbatim>\<open>rec.jpg\<close> is not a recording file and
  \<^verbatim>\<open>rec12a.jpg\<close> is registered under the ID 12; the construction on \<^verbatim>\<open>/data2/pcb12\<close>,
  which holds \<^verbatim>\<open>recording.jpg\<close>, does not return.
\<close>

theorem PCB_registers_witness:
  "PCB_new ex_fs ''/data/pcb1'' (Fin 1) = Inr ex_pcb \<and>
   rec_files ex_fs ''/data/pcb1'' = [''rec1.jpg'', ''rec12a.jpg'', ''rec2.jpg'', ''rec7.jpg''] \<and>
   (\<forall>k. map_of (recordings_map ex_pcb) k =
      map_option (path_append ''/data/pcb1'')
        (find (\<lambda>f. stoi (spec_rid f) = Inr k)
           [''rec1.jpg'', ''rec12a.jpg'', ''rec2.jpg'', ''rec7.jpg''])) \<and>
   map_of (recordings_map ex_pcb) 12 =
     Some \<lparr>parent_path = ''/data/pcb1'', filename = ''rec12a.jpg''\<rparr> \<and>
   stoi (''12'' @ ''a'') = Inr 12 \<and>
   (\<nexists>pcb. PCB_new ex_fs ''/data2/pcb12'' (Fin 1) = Inr pcb)"
proof -
  have h: "PCB_new ex_fs ''/data/pcb1'' (Fin 1) = Inr ex_pcb"
    by (simp add: ex_scan_simps)
  have rf: "rec_files ex_fs ''/data/pcb1'' =
      [''rec1.jpg'', ''rec12a.jpg'', ''rec2.jpg'', ''rec7.jpg'']"
    by (simp add: ex_scan_simps)
  note t = PCB_registers [of ex_fs "''/data/pcb1''" "Fin 1"]
  from t h have b0: "\<forall>k. map_of (recordings_map ex_pcb) k =
      map_option (path_append ''/data/pcb1'')
        (find (\<lambda>f. stoi (spec_rid f) = Inr k) (rec_files ex_fs ''/data/pcb1''))"
    by blast
  note b = b0 [unfolded rf]
  have c: "map_of (recordings_map ex_pcb) 12 =
     Some \<lparr>parent_path = ''/data/pcb1'', filename = ''rec12a.jpg''\<rparr>"
    by (simp add: ex_pcb_def)
  have d: "stoi (''12'' @ ''a'') = Inr 12"
    by (simp add: ex_simps)
  have e: "\<nexists>pcb. PCB_new ex_fs ''/data2/pcb12'' (Fin 1) = Inr pcb"
    by (simp add: ex_scan_simps)
  show ?thesis
    by (intro conjI h rf b c d e)
qed

text \<open>
  C9 as stated fails: in \<^verbatim>\<open>/data/pcb12x\<close> the regular file \<^verbatim>\<open>rec12a.jpg\<close> has a name of
  the required form and is not registered, since \<^verbatim>\<open>rec12.jpg\<close> comes first with the
  same ID; in \<^verbatim>\<open>/data2/pcb12\<close> the regular file \<^verbatim>\<open>recording.jpg\<close> has a name of the
  required form and the construction throws.
\<close>

theorem PCB_registers_counterexample:
  "rec_files ex_fs ''/data/pcb12x'' = [''rec12.jpg'', ''rec12a.jpg''] \<and>
   PCB_new ex_fs ''/data/pcb12x'' (Fin 1) =
     Inr \<lparr>pcb_root = ''/data/pcb12x'', pcb_scale = Fin 1,
          recordings_map = [(12, \<lparr>parent_path = ''/data/pcb12x'', filename = ''rec12.jpg''\<rparr>)],
          cache_cropinfo = [], cache_ics = []\<rparr> \<and>
   rec_files ex_fs ''/data2/pcb12'' = [''rec1.jpg'', ''recording.jpg''] \<and>
   PCB_new ex_fs ''/data2/pcb12'' (Fin 1) = Inl (invalid_argument ''stoi'')"
  by (simp add: ex_scan_simps)

section \<open>The pixel size\<close>

text \<open>
  C10. For every Annot, \<open>sizePixels(true)\<close> is the product of the rectangle's width and
  height, and \<open>sizePixels(false)\<close> is that product divided by the Annot's scale factor;
  \<open>sizeCm2\<close> follows the same convention: \<open>sizeCm2(false)\<close> is \<open>sizeCm2(true)\<close> divided
  by the scale factor.
\<close>

theorem sizePixels_convention:
  "sizePixels a True = fmul (size_width (rect a)) (size_height (rect a)) \<and>
   sizePixels a False = fdiv (fmul (size_width (rect a)) (size_height (rect a))) (scale a) \<and>
   sizeCm2 a False = fdiv (sizeCm2 a True) (scale a)"
  by (simp add: sizePixels_def sizeCm2_def area_def)

end
